theory Spec2Isabelle
  imports Complex_Main "HOL-Library.AList"
begin

section \<open>Values, objects and rows\<close>

text \<open>
  The class \<open>BaseRepository\<close> (src/src/BaseRepository.ts) forwards every method to one
  statement of a query builder, run on one table of a relational database. The embedding
  has three layers:
  \<^item> JavaScript values and objects, with the object spread the methods use;
  \<^item> the table and the statements the builder runs on it;
  \<^item> the methods of \<open>BaseRepository\<close>, line by line.
  The clock and the UUID generator are inputs: a method that calls \<open>new Date()\<close> takes
  \<open>now\<close>, a method that calls \<open>randomUUID()\<close> takes the value it returns. A method that
  changes the table returns its result, or its error, together with the table it leaves.

  A JavaScript object is an association list in insertion order (the order of
  \<open>Object.entries\<close>); a property that is present with the value \<open>undefined\<close> is a pair
  \<open>(k, Undefined)\<close>, a property that is absent is no pair. Numbers are integers (page
  numbers, counts), a \<open>Date\<close> is its millisecond time stamp.
\<close>

datatype jsval = Undefined | Null | Bool bool | Num int | Str string | Date int

type_synonym obj = "(string \<times> jsval) list"

type_synonym row = obj

text \<open>\<open>ob[k]\<close>: reading an absent property gives \<open>undefined\<close>.\<close>

definition obj_get :: "obj \<Rightarrow> string \<Rightarrow> jsval" where
  "obj_get ob k = (case map_of ob k of None \<Rightarrow> Undefined | Some v \<Rightarrow> v)"

text \<open>
  \<open>{ ...base, ...item }\<close>: every own property of \<open>item\<close> is written over \<open>base\<close>, in
  order; a key that is already there keeps its position and takes the new value, also
  when the new value is \<open>undefined\<close>.
\<close>

definition spread :: "obj \<Rightarrow> obj \<Rightarrow> obj" where
  "spread base item = fold (\<lambda>(k, v). AList.update k v) item base"

datatype error = NoResultError | SqlError | TypeError

section \<open>The table and the statements run on it\<close>

text \<open>
  The query builder (the package \<open>kysely\<close>) and the database it talks to are not in
  src/: the repository only calls them. Their definitions below are marked as modelled
  from the spec. They follow the spec where it speaks, and PostgreSQL (the backend of the
  tests) and the builder where it is silent: \<open>=\<close> is never true of \<open>NULL\<close>; a negative
  \<open>LIMIT\<close> or \<open>OFFSET\<close> is an error; a property whose value is \<open>undefined\<close> is left
  out of an \<open>INSERT\<close> and of the \<open>SET\<close> list of an \<open>UPDATE\<close>; an \<open>INSERT\<close> without
  rows is an error; \<open>LIMIT\<close> and \<open>OFFSET\<close> apply to the one row of an aggregate
  query; a \<open>DELETE\<close> takes neither; a statement that names a column the table does not
  have is an error.

  Modelled from the spec: the table behind the connection handle. A table is its list of
  column names and its rows ("a fixed three-column header followed by caller-defined
  columns"); a row gives every column a value, in column order. The list order stands
  for the order in which the database hands rows out, which the source never fixes (no
  \<open>ORDER BY\<close>: "no implicit ordering"). Values are read back as they were written:
  column types and the coercions of the database are not modelled. One call runs at a
  time.
\<close>

record table =
  columns :: "string list"
  rows :: "row list"

text \<open>
  Modelled from the spec: the part of the builder's query that its \<open>where\<close>, \<open>limit\<close>
  and \<open>offset\<close> calls set. These are the calls the repository makes itself, and the
  calls of the callbacks the properties below are about. A \<open>where\<close> condition ("an
  exact-match value", "comparisons, ORs") names the columns it reads and is a test on
  the row. What the query selects (\<open>selectAll\<close>, the count of the rows) is fixed by each
  method and given by the function that runs the query. Ordering, grouping and joins are
  outside the model: no property below is stated for a callback that orders, groups or
  joins, and every property that speaks of a callback names the calls the callback
  makes.
\<close>

datatype clause = Where "string list" "row \<Rightarrow> bool"

record query =
  wheres :: "clause list"
  qlimit :: "int option"
  qoffset :: "int option"

text \<open>\<open>this.select()\<close>, that is \<open>db.selectFrom(tableName)\<close>, and \<open>db.deleteFrom(tableName)\<close>.\<close>

definition select :: query where
  "select = \<lparr>wheres = [], qlimit = None, qoffset = None\<rparr>"

definition deleteFrom :: query where
  "deleteFrom = \<lparr>wheres = [], qlimit = None, qoffset = None\<rparr>"

text \<open>
  Modelled from the spec: the builder's \<open>where(key, "=", value)\<close>, "an exact-match
  value". In SQL \<open>column = value\<close> is never true of \<open>NULL\<close>, and a parameter
  \<open>undefined\<close> is sent as \<open>NULL\<close>.
\<close>

definition sql_eq :: "jsval \<Rightarrow> jsval \<Rightarrow> bool" where
  "sql_eq v x = (v \<noteq> Undefined \<and> v \<noteq> Null \<and> x = v)"

definition column_eq :: "string \<Rightarrow> jsval \<Rightarrow> row \<Rightarrow> bool" where
  "column_eq key v r = (case map_of r key of None \<Rightarrow> False | Some x \<Rightarrow> sql_eq v x)"

text \<open>
  Modelled from the spec: the calls of the builder. \<open>op.where(key, "=", value)\<close> is the
  call of the methods for each property of a mapping; \<open>op.where(c)\<close>, for any condition
  \<open>c\<close>, is the call of a callback ("comparisons, ORs"); \<open>op.limit(n)\<close> and
  \<open>op.offset(n)\<close> replace the limit and the offset the query had.
\<close>

definition where_eq :: "string \<Rightarrow> jsval \<Rightarrow> query \<Rightarrow> query" where
  "where_eq key v op = op\<lparr>wheres := wheres op @ [Where [key] (column_eq key v)]\<rparr>"

definition where_clause :: "clause \<Rightarrow> query \<Rightarrow> query" where
  "where_clause c op = op\<lparr>wheres := wheres op @ [c]\<rparr>"

text \<open>
  \<open>op.where(key, ">=", n)\<close> for a number \<open>n\<close>, the comparison the callback of the
  test "inserts and deletes many" adds.
\<close>

definition column_ge :: "string \<Rightarrow> int \<Rightarrow> row \<Rightarrow> bool" where
  "column_ge key n r = (case map_of r key of Some (Num m) \<Rightarrow> n \<le> m | _ \<Rightarrow> False)"

definition where_ge :: "string \<Rightarrow> int \<Rightarrow> query \<Rightarrow> query" where
  "where_ge key n op = where_clause (Where [key] (column_ge key n)) op"

definition limit :: "int \<Rightarrow> query \<Rightarrow> query" where
  "limit n op = op\<lparr>qlimit := Some n\<rparr>"

definition offset :: "int \<Rightarrow> query \<Rightarrow> query" where
  "offset n op = op\<lparr>qoffset := Some n\<rparr>"

fun clause_columns :: "clause \<Rightarrow> string list" where
  "clause_columns (Where ks p) = ks"

fun holds :: "row \<Rightarrow> clause \<Rightarrow> bool" where
  "holds r (Where ks p) = p r"

text \<open>
  Modelled from the spec: the rows a query matches, "all pairs ANDed together, empty
  mapping = no filter". A statement that names a column the table does not have is
  refused.
\<close>

definition known_columns :: "table \<Rightarrow> query \<Rightarrow> bool" where
  "known_columns t q =
     list_all (\<lambda>c. list_all (\<lambda>k. k \<in> set (columns t)) (clause_columns c)) (wheres q)"

definition matches :: "query \<Rightarrow> row \<Rightarrow> bool" where
  "matches q r = list_all (holds r) (wheres q)"

definition matching :: "table \<Rightarrow> query \<Rightarrow> row list" where
  "matching t q = filter (matches q) (rows t)"

text \<open>
  Modelled from the spec: the builder's \<open>limit\<close> and \<open>offset\<close> on the rows a statement
  produces, "rows [(page-1)*pageSize, page*pageSize) of the filtered set". PostgreSQL
  refuses a negative \<open>LIMIT\<close> or \<open>OFFSET\<close>.
\<close>

definition negative :: "int option \<Rightarrow> bool" where
  "negative n = (case n of None \<Rightarrow> False | Some k \<Rightarrow> k < 0)"

definition limit_offset :: "query \<Rightarrow> 'a list \<Rightarrow> error + 'a list" where
  "limit_offset q xs =
     (if negative (qlimit q) \<or> negative (qoffset q) then Inl SqlError
      else Inr ((case qlimit q of None \<Rightarrow> id | Some n \<Rightarrow> take (nat n))
                ((case qoffset q of None \<Rightarrow> id | Some n \<Rightarrow> drop (nat n)) xs)))"

text \<open>
  Modelled from the spec: the builder's \<open>op.selectAll().execute()\<close>, "all matching
  records", and \<open>op.selectAll().executeTakeFirst()\<close>, "first matching record or "not
  found" sentinel".
\<close>

definition execute :: "table \<Rightarrow> query \<Rightarrow> error + row list" where
  "execute t q = (if known_columns t q then limit_offset q (matching t q) else Inl SqlError)"

definition executeTakeFirst :: "table \<Rightarrow> query \<Rightarrow> error + row option" where
  "executeTakeFirst t q =
     (case execute t q of
        Inl e \<Rightarrow> Inl e
      | Inr [] \<Rightarrow> Inr None
      | Inr (r # _) \<Rightarrow> Inr (Some r))"

text \<open>
  Modelled from the spec: the builder's \<open>op.select(...).execute()\<close> with the selection
  \<open>COUNT\<close> of all rows \<open>AS count\<close>, "integer count of matching rows". The aggregate
  gives one row, the number of rows that pass the \<open>where\<close> clauses; \<open>LIMIT\<close> and
  \<open>OFFSET\<close> then apply to that one row.
\<close>

definition execute_count :: "table \<Rightarrow> query \<Rightarrow> error + int list" where
  "execute_count t q =
     (if known_columns t q then limit_offset q [int (length (matching t q))] else Inl SqlError)"

text \<open>
  Modelled from the spec: the constraints of a managed table, "id is unique within a
  table" and "every row in a managed table has non-null id, createdAt, updatedAt", as
  the database checks them on every insert and update. They are the constraints the
  static method \<open>createTable\<close> declares (\<open>primaryKey()\<close> on \<open>id\<close>, \<open>notNull()\<close> on
  \<open>createdAt\<close> and \<open>updatedAt\<close>, src lines 25 to 29); creating, altering and dropping
  tables are not modelled.
\<close>

definition not_null :: "row \<Rightarrow> bool" where
  "not_null r = (obj_get r ''id'' \<noteq> Null \<and> obj_get r ''createdAt'' \<noteq> Null
                 \<and> obj_get r ''updatedAt'' \<noteq> Null)"

definition constraints_ok :: "row list \<Rightarrow> bool" where
  "constraints_ok rs = (list_all not_null rs \<and> distinct (map (\<lambda>r. obj_get r ''id'') rs))"

text \<open>
  Modelled from the spec: the values of a statement, "record fields" of the table. The
  builder leaves a property whose value is \<open>undefined\<close> out of an \<open>INSERT\<close> and out of
  the \<open>SET\<close> list of an \<open>UPDATE\<close>; a property that is not a column is refused.
\<close>

definition defined :: "obj \<Rightarrow> obj" where
  "defined vals = filter (\<lambda>(k, v). v \<noteq> Undefined) vals"

definition known_keys :: "table \<Rightarrow> obj \<Rightarrow> bool" where
  "known_keys t vals = list_all (\<lambda>(k, v). k \<in> set (columns t)) (defined vals)"

text \<open>
  Modelled from the spec: the builder's
  \<open>insertInto(t).values(vals).returningAll().execute()\<close>, "the full persisted record",
  "sequence of full persisted records, same order". A column without a value takes
  its default, \<open>NULL\<close>. (The default \<open>NOW()\<close> of \<open>createdAt\<close> and \<open>updatedAt\<close> is
  never used: \<open>insert\<close> and \<open>insertAll\<close> always send both columns, see
  \<open>insert_values_timestamps\<close>.) An empty list of
  values is not a statement. The result is the rows written, in the order of \<open>vals\<close>,
  and the new table. A failed statement leaves the table as it was.
\<close>

definition new_row :: "string list \<Rightarrow> obj \<Rightarrow> row" where
  "new_row cols vals =
     map (\<lambda>c. (c, case map_of (defined vals) c of None \<Rightarrow> Null | Some v \<Rightarrow> v)) cols"

definition exec_insert :: "table \<Rightarrow> obj list \<Rightarrow> (error + row list) \<times> table" where
  "exec_insert t vals =
     (let news = map (new_row (columns t)) vals
      in if vals = [] \<or> \<not> list_all (known_keys t) vals \<or> \<not> constraints_ok (rows t @ news)
         then (Inl SqlError, t)
         else (Inr news, t\<lparr>rows := rows t @ news\<rparr>))"

text \<open>
  Modelled from the spec: the builder's
  \<open>updateTable(t).where(...).set(vals).returningAll().execute()\<close>, "the updated record".
  Every row that passes the \<open>where\<close> clauses takes the defined values of \<open>vals\<close>; the
  result is the rows as updated. A failed statement leaves the table as it was.
\<close>

definition assign :: "obj \<Rightarrow> row \<Rightarrow> row" where
  "assign vals r =
     map (\<lambda>(c, x). (c, case map_of (defined vals) c of None \<Rightarrow> x | Some v \<Rightarrow> v)) r"

definition exec_update :: "table \<Rightarrow> query \<Rightarrow> obj \<Rightarrow> (error + row list) \<times> table" where
  "exec_update t q vals =
     (let rows' = map (\<lambda>r. if matches q r then assign vals r else r) (rows t)
      in if \<not> known_columns t q \<or> \<not> known_keys t vals \<or> \<not> constraints_ok rows'
         then (Inl SqlError, t)
         else (Inr (map (assign vals) (matching t q)), t\<lparr>rows := rows'\<rparr>))"

text \<open>
  Modelled from the spec: the builder's
  \<open>deleteFrom(t).where(...).returningAll().execute()\<close>, "all deleted records
  (pre-deletion snapshots)". The rows that pass the \<open>where\<close> clauses are removed and
  returned as they were. PostgreSQL has no \<open>LIMIT\<close> and no \<open>OFFSET\<close> on a
  \<open>DELETE\<close>: a delete that a callback gave one is refused.
\<close>

definition exec_delete :: "table \<Rightarrow> query \<Rightarrow> (error + row list) \<times> table" where
  "exec_delete t q =
     (if qlimit q \<noteq> None \<or> qoffset q \<noteq> None \<or> \<not> known_columns t q then (Inl SqlError, t)
      else (Inr (matching t q), t\<lparr>rows := filter (\<lambda>r. \<not> matches q r) (rows t)\<rparr>))"

text \<open>
  Modelled from the spec: the builder's \<open>executeTakeFirst\<close> and
  \<open>executeTakeFirstOrThrow\<close> on the rows a statement returned: the first row, and
  \<open>undefined\<close> ("not found") or the \<open>NoResultError\<close> ("fails loudly ("no result")")
  when there is none.
\<close>

definition takeFirst :: "'a list \<Rightarrow> 'a option" where
  "takeFirst rs = (case rs of [] \<Rightarrow> None | r # _ \<Rightarrow> Some r)"

definition takeFirstOrThrow :: "(error + 'a list) \<Rightarrow> error + 'a" where
  "takeFirstOrThrow res =
     (case res of
        Inl e \<Rightarrow> Inl e
      | Inr [] \<Rightarrow> Inl NoResultError
      | Inr (r # _) \<Rightarrow> Inr r)"

section \<open>The methods of BaseRepository\<close>

text \<open>
  A condition is a mapping from column names to values, or a callback on the query
  (\<open>typeof condition === "function"\<close>). The loop over \<open>Object.entries(condition)\<close> adds
  one \<open>where\<close> clause per property.
\<close>

datatype condition = Mapping obj | Callback "query \<Rightarrow> query"

fun apply_condition :: "condition \<Rightarrow> query \<Rightarrow> query" where
  "apply_condition (Callback f) op = f op"
| "apply_condition (Mapping m) op = fold (\<lambda>(key, v) op. where_eq key v op) m op"

text \<open>
  \<open>insert\<close>: \<open>now\<close> is the value of \<open>new Date()\<close>, \<open>uuid\<close> the value of \<open>randomUUID()\<close>.
  The values sent are \<open>{ id: randomUUID(), ...item, createdAt: now, updatedAt: now }\<close>.
\<close>

definition insert_values :: "string \<Rightarrow> int \<Rightarrow> obj \<Rightarrow> obj" where
  "insert_values uuid now item =
     AList.update ''updatedAt'' (Date now)
       (AList.update ''createdAt'' (Date now) (spread [(''id'', Str uuid)] item))"

definition insert_repo :: "table \<Rightarrow> string \<Rightarrow> int \<Rightarrow> obj \<Rightarrow> (error + row option) \<times> table" where
  "insert_repo t uuid now item =
     (case exec_insert t [insert_values uuid now item] of
        (Inl e, t') \<Rightarrow> (Inl e, t')
      | (Inr res, t') \<Rightarrow> (Inr (takeFirst res), t'))"

text \<open>
  \<open>insertAll\<close>: one \<open>now\<close> for the call; \<open>uuid i\<close> is the value of the call of
  \<open>randomUUID()\<close> for the item at index \<open>i\<close>.
\<close>

definition insertAll :: "table \<Rightarrow> (nat \<Rightarrow> string) \<Rightarrow> int \<Rightarrow> obj list \<Rightarrow> (error + row list) \<times> table" where
  "insertAll t uuid now items =
     exec_insert t (map (\<lambda>(i, item). insert_values (uuid i) now item) (enumerate 0 items))"

definition findOneBy :: "table \<Rightarrow> condition \<Rightarrow> error + row option" where
  "findOneBy t condition = executeTakeFirst t (apply_condition condition select)"

text \<open>
  \<open>count\<close>: the first row of the counting query is destructured
  (\<open>const { count } = ...\<close>), a \<open>TypeError\<close> when there is no row; \<open>parseInt\<close> reads
  the decimal string the driver returns for the count.
\<close>

definition count :: "table \<Rightarrow> condition \<Rightarrow> error + int" where
  "count t condition =
     (case execute_count t (apply_condition condition select) of
        Inl e \<Rightarrow> Inl e
      | Inr [] \<Rightarrow> Inl TypeError
      | Inr (c # _) \<Rightarrow> Inr c)"

text \<open>
  \<open>Math.ceil(a / b)\<close> on integers: division by zero gives an infinity or \<open>NaN\<close>, not an
  exception.
\<close>

datatype jsnum = Finite int | PosInfinity | NegInfinity | NaN

definition ceil_div :: "int \<Rightarrow> int \<Rightarrow> jsnum" where
  "ceil_div a b =
     (if b = 0 then (if a = 0 then NaN else if 0 < a then PosInfinity else NegInfinity)
      else Finite (- ((- a) div b)))"

record paginated =
  data :: "row list"
  page :: int
  pageCount :: jsnum
  pageSize :: int
  rowCount :: int

definition findAllPaginated :: "table \<Rightarrow> int \<Rightarrow> int \<Rightarrow> condition \<Rightarrow> error + paginated" where
  "findAllPaginated t page' pageSize' condition =
     (case count t condition of
        Inl e \<Rightarrow> Inl e
      | Inr rowCount' \<Rightarrow>
          (case execute t (offset ((page' - 1) * pageSize')
                             (limit pageSize' (apply_condition condition select))) of
             Inl e \<Rightarrow> Inl e
           | Inr result \<Rightarrow>
               Inr \<lparr>data = result, page = page', pageCount = ceil_div rowCount' pageSize',
                    pageSize = pageSize', rowCount = rowCount'\<rparr>))"

definition findAll :: "table \<Rightarrow> error + row list" where
  "findAll t = execute t select"

definition findBy :: "table \<Rightarrow> condition \<Rightarrow> error + row list" where
  "findBy t condition = execute t (apply_condition condition select)"

definition get :: "table \<Rightarrow> jsval \<Rightarrow> error + row option" where
  "get t id' = executeTakeFirst t (where_eq ''id'' id' select)"

text \<open>
  \<open>update\<close>: the row whose id is \<open>item.id\<close> is set to \<open>{ ...item, updatedAt: new Date() }\<close>.
\<close>

definition update_values :: "int \<Rightarrow> obj \<Rightarrow> obj" where
  "update_values now item = AList.update ''updatedAt'' (Date now) item"

definition update :: "table \<Rightarrow> int \<Rightarrow> obj \<Rightarrow> (error + row) \<times> table" where
  "update t now item =
     (case exec_update t (where_eq ''id'' (obj_get item ''id'') select) (update_values now item) of
        (res, t') \<Rightarrow> (takeFirstOrThrow res, t'))"

definition delete :: "table \<Rightarrow> jsval \<Rightarrow> (error + row) \<times> table" where
  "delete t id' =
     (case exec_delete t (where_eq ''id'' id' deleteFrom) of
        (res, t') \<Rightarrow> (takeFirstOrThrow res, t'))"

definition deleteBy :: "table \<Rightarrow> condition \<Rightarrow> (error + row list) \<times> table" where
  "deleteBy t condition = exec_delete t (apply_condition condition deleteFrom)"

definition truncate_repo :: "table \<Rightarrow> (error + unit) \<times> table" where
  "truncate_repo t =
     (case exec_delete t deleteFrom of
        (Inl e, t') \<Rightarrow> (Inl e, t')
      | (Inr _, t') \<Rightarrow> (Inr (), t'))"

section \<open>Well-formed tables and the notions the properties are stated with\<close>

text \<open>
  The tables the methods keep: the three leading columns exist, every row has a value
  other than \<open>undefined\<close> for each column, in column order, and the constraints hold.
\<close>

definition wf_row :: "string list \<Rightarrow> row \<Rightarrow> bool" where
  "wf_row cols r = (map fst r = cols \<and> list_all (\<lambda>(k, v). v \<noteq> Undefined) r)"

definition wf_table :: "table \<Rightarrow> bool" where
  "wf_table t =
     (distinct (columns t) \<and> ''id'' \<in> set (columns t) \<and> ''createdAt'' \<in> set (columns t)
      \<and> ''updatedAt'' \<in> set (columns t) \<and> list_all (wf_row (columns t)) (rows t)
      \<and> constraints_ok (rows t))"

text \<open>
  An exact-match mapping holds of a row when every property of the mapping is the value
  of that column in the row (and is neither \<open>null\<close> nor \<open>undefined\<close>, which \<open>=\<close> never
  matches).
\<close>

definition exact_match :: "obj \<Rightarrow> row \<Rightarrow> bool" where
  "exact_match m r =
     list_all (\<lambda>(k, v). v \<noteq> Undefined \<and> v \<noteq> Null \<and> map_of r k = Some v) m"

text \<open>
  The filters the properties are stated for, and the rows each of them selects, said
  without the code of the methods: an exact-match mapping \<open>m\<close> selects the rows
  \<open>exact_match m\<close> holds of; a list of conditions \<open>cs\<close> selects the rows every condition
  holds of. \<open>condition_of\<close> is the argument a caller passes for the filter: the mapping
  itself, or the callback \<open>qb => qb.where(c1) ... .where(cn)\<close>, which adds the
  conditions and does nothing else. \<open>filtered t F\<close> is the filtered set, in the order of
  the table; \<open>columns_known t F\<close> says that the filter names columns of the table only.
\<close>

definition and_where :: "clause list \<Rightarrow> query \<Rightarrow> query" where
  "and_where cs op = fold where_clause cs op"

datatype row_filter = Exact obj | Conditions "clause list"

fun condition_of :: "row_filter \<Rightarrow> condition" where
  "condition_of (Exact m) = Mapping m"
| "condition_of (Conditions cs) = Callback (and_where cs)"

fun passes :: "row_filter \<Rightarrow> row \<Rightarrow> bool" where
  "passes (Exact m) r = exact_match m r"
| "passes (Conditions cs) r = list_all (\<lambda>c. case c of Where ks p \<Rightarrow> p r) cs"

fun filter_columns :: "row_filter \<Rightarrow> string list" where
  "filter_columns (Exact m) = map fst m"
| "filter_columns (Conditions cs) = concat (map (\<lambda>c. case c of Where ks p \<Rightarrow> ks) cs)"

definition filtered :: "table \<Rightarrow> row_filter \<Rightarrow> row list" where
  "filtered t F = filter (passes F) (rows t)"

definition columns_known :: "table \<Rightarrow> row_filter \<Rightarrow> bool" where
  "columns_known t F = list_all (\<lambda>k. k \<in> set (columns t)) (filter_columns F)"

text \<open>The elements of a list at the positions \<open>i\<close> with \<open>lo \<le> i < hi\<close>, in order.\<close>

definition positions :: "'a list \<Rightarrow> int \<Rightarrow> int \<Rightarrow> 'a list" where
  "positions xs lo hi = map ((!) xs) (filter (\<lambda>i. lo \<le> int i \<and> int i < hi) [0..<length xs])"

text \<open>
  A caller that asks for the pages \<open>ps\<close> one after the other, with the same page size and
  condition, and concatenates their \<open>data\<close>; the first error ends it.
\<close>

fun concat_pages :: "table \<Rightarrow> int \<Rightarrow> condition \<Rightarrow> int list \<Rightarrow> error + row list" where
  "concat_pages t n c [] = Inr []"
| "concat_pages t n c (p # ps) =
     (case findAllPaginated t p n c of
        Inl e \<Rightarrow> Inl e
      | Inr r \<Rightarrow>
          (case concat_pages t n c ps of
             Inl e \<Rightarrow> Inl e
           | Inr ds \<Rightarrow> Inr (data r @ ds)))"

text \<open>A table with one more column, \<open>name\<close>, and three rows, for the examples.\<close>

definition example_table :: table where
  "example_table =
     \<lparr>columns = [''id'', ''createdAt'', ''updatedAt'', ''name''],
      rows = [[(''id'', Str ''a''), (''createdAt'', Date 1), (''updatedAt'', Date 1),
               (''name'', Str ''foo'')],
              [(''id'', Str ''b''), (''createdAt'', Date 2), (''updatedAt'', Date 3),
               (''name'', Str ''bar'')],
              [(''id'', Str ''c''), (''createdAt'', Date 4), (''updatedAt'', Date 4),
               (''name'', Str ''foo'')]]\<rparr>"

text \<open>
  The condition of the callback
  \<open>qb => qb.where((eb) => eb.or([eb("name", "=", "bar"), eb("id", "=", "c")]))\<close>, for
  the examples.
\<close>

definition name_bar_or_id_c :: clause where
  "name_bar_or_id_c =
     Where [''name'', ''id'']
       (\<lambda>r. column_eq ''name'' (Str ''bar'') r \<or> column_eq ''id'' (Str ''c'') r)"

text \<open>
  The id a call of \<open>insert\<close> sends for an item: the item's own \<open>id\<close> property when it has
  one, the generated UUID otherwise.
\<close>

definition assigned_id :: "string \<Rightarrow> obj \<Rightarrow> jsval" where
  "assigned_id uuid item = (case map_of item ''id'' of None \<Rightarrow> Str uuid | Some v \<Rightarrow> v)"

definition ids :: "table \<Rightarrow> jsval list" where
  "ids t = map (\<lambda>r. obj_get r ''id'') (rows t)"

definition assigned_ids :: "(nat \<Rightarrow> string) \<Rightarrow> obj list \<Rightarrow> jsval list" where
  "assigned_ids uuid items = map (\<lambda>(i, item). assigned_id (uuid i) item) (enumerate 0 items)"

text \<open>
  The tables and records of the tests of the repository (the second part of
  src/src/BaseRepository.ts): "inserts, finds, updates and deletes objects" works on a
  table with the column \<open>name\<close>, "inserts and deletes many" on a table with the column
  \<open>value\<close> and ten objects. \<open>test_uuid i\<close> stands for the UUID generated for the
  object at index \<open>i\<close>.
\<close>

definition test_table :: table where
  "test_table = \<lparr>columns = [''id'', ''createdAt'', ''updatedAt'', ''name''], rows = []\<rparr>"

definition test_inserted :: "string \<Rightarrow> int \<Rightarrow> row" where
  "test_inserted u n1 =
     [(''id'', Str u), (''createdAt'', Date n1), (''updatedAt'', Date n1), (''name'', Str ''foo'')]"

definition test_updated :: "string \<Rightarrow> int \<Rightarrow> int \<Rightarrow> row" where
  "test_updated u n1 n2 =
     [(''id'', Str u), (''createdAt'', Date n1), (''updatedAt'', Date n2), (''name'', Str ''bar'')]"

definition test_uuid :: "nat \<Rightarrow> string" where
  "test_uuid i = replicate (Suc i) CHR ''u''"

definition test_many :: table where
  "test_many = \<lparr>columns = [''id'', ''createdAt'', ''updatedAt'', ''value''], rows = []\<rparr>"

definition test_object :: "int \<Rightarrow> nat \<Rightarrow> int \<Rightarrow> row" where
  "test_object now i v =
     [(''id'', Str (test_uuid i)), (''createdAt'', Date now), (''updatedAt'', Date now),
      (''value'', Num v)]"

definition test_objects :: "int \<Rightarrow> row list" where
  "test_objects now = map (\<lambda>(i, v). test_object now i v) (enumerate 0 [0, 1, 2, 3, 4, 5, 6, 7, 8, 9])"

section \<open>Conditions and plain queries\<close>

lemma fold_where_eq:
  "fold (\<lambda>(key, v) op. where_eq key v op) m q
     = q\<lparr>wheres := wheres q @ map (\<lambda>(k, v). Where [k] (column_eq k v)) m\<rparr>"
  by (induction m arbitrary: q) (auto simp: where_eq_def)

lemma fold_where_clause: "fold where_clause cs q = q\<lparr>wheres := wheres q @ cs\<rparr>"
  by (induction cs arbitrary: q) (auto simp: where_clause_def)

lemma execute_plain:
  assumes "qlimit q = None" and "qoffset q = None"
  shows "execute_count t q
           = (if known_columns t q then Inr [int (length (matching t q))] else Inl SqlError)"
    and "execute t q = (if known_columns t q then Inr (matching t q) else Inl SqlError)"
  using assms by (simp_all add: execute_count_def execute_def limit_offset_def negative_def)

lemma deleteFrom_select: "deleteFrom = select"
  by (simp add: deleteFrom_def select_def)

lemma column_eq_iff:
  "column_eq k v r \<longleftrightarrow> v \<noteq> Undefined \<and> v \<noteq> Null \<and> map_of r k = Some v"
  by (auto simp: column_eq_def sql_eq_def split: option.splits)

lemma matches_Mapping:
  "matches (apply_condition (Mapping m) select) r = exact_match m r"
  by (simp add: matches_def fold_where_eq select_def exact_match_def list_all_iff
      split_beta column_eq_iff)

lemma findAll_eq: "findAll t = Inr (rows t)"
  by (simp add: findAll_def execute_def select_def known_columns_def limit_offset_def
      negative_def matching_def matches_def)

lemma findBy_all: "findBy t (Mapping []) = Inr (rows t)"
  by (simp add: findBy_def execute_def select_def known_columns_def limit_offset_def
      negative_def matching_def matches_def)

text \<open>
  The query the methods build for a filter: it has the filter's conditions and neither
  a limit nor an offset, it matches the rows the filter selects, and the database
  accepts it when the filter names columns of the table only.
\<close>

lemma holds_case: "holds r c = (case c of Where ks p \<Rightarrow> p r)"
  by (cases c) simp

lemma clause_columns_case: "clause_columns c = (case c of Where ks p \<Rightarrow> ks)"
  by (cases c) simp

lemma filter_no_limit:
  "qlimit (apply_condition (condition_of F) select) = None"
  "qoffset (apply_condition (condition_of F) select) = None"
  by (cases F; simp add: fold_where_eq fold_where_clause and_where_def select_def)+

lemma matches_filter: "matches (apply_condition (condition_of F) select) = passes F"
proof (cases F)
  case (Exact m)
  then show ?thesis by (simp only: condition_of.simps passes.simps fun_eq_iff matches_Mapping) simp
next
  case (Conditions cs)
  then show ?thesis
    by (simp add: fun_eq_iff matches_def and_where_def fold_where_clause select_def holds_case
        list_all_iff)
qed

lemma known_columns_filter:
  "known_columns t (apply_condition (condition_of F) select) = columns_known t F"
proof (cases F)
  case (Exact m)
  then show ?thesis
    by (simp add: known_columns_def columns_known_def fold_where_eq select_def list_all_iff
        split_beta)
next
  case (Conditions cs)
  then show ?thesis
    by (simp add: known_columns_def columns_known_def and_where_def fold_where_clause
        select_def list_all_iff clause_columns_case)
qed

lemma matching_filter: "matching t (apply_condition (condition_of F) select) = filtered t F"
  by (simp only: matching_def filtered_def matches_filter)

lemma findBy_filter:
  "findBy t (condition_of F) = (if columns_known t F then Inr (filtered t F) else Inl SqlError)"
  by (simp add: findBy_def execute_plain filter_no_limit known_columns_filter matching_filter)

lemma count_filter:
  "count t (condition_of F)
     = (if columns_known t F then Inr (int (length (filtered t F))) else Inl SqlError)"
  by (simp add: count_def execute_plain filter_no_limit known_columns_filter matching_filter)

text \<open>The rows three filters select of the example table.\<close>

lemma example_filtered:
  "columns_known example_table (Exact [(''name'', Str ''foo'')])"
  "filtered example_table (Exact [(''name'', Str ''foo'')])
     = [[(''id'', Str ''a''), (''createdAt'', Date 1), (''updatedAt'', Date 1),
         (''name'', Str ''foo'')],
        [(''id'', Str ''c''), (''createdAt'', Date 4), (''updatedAt'', Date 4),
         (''name'', Str ''foo'')]]"
  "columns_known example_table (Conditions [name_bar_or_id_c])"
  "filtered example_table (Conditions [name_bar_or_id_c])
     = [[(''id'', Str ''b''), (''createdAt'', Date 2), (''updatedAt'', Date 3),
         (''name'', Str ''bar'')],
        [(''id'', Str ''c''), (''createdAt'', Date 4), (''updatedAt'', Date 4),
         (''name'', Str ''foo'')]]"
  "columns_known example_table (Conditions [Where [''name''] (column_eq ''name'' (Str ''baz''))])"
  "filtered example_table (Conditions [Where [''name''] (column_eq ''name'' (Str ''baz''))]) = []"
  "columns_known example_table (Exact [(''name'', Str ''baz'')])"
  "filtered example_table (Exact [(''name'', Str ''baz'')]) = []"
  by (simp_all add: columns_known_def filtered_def exact_match_def name_bar_or_id_c_def
      column_eq_def sql_eq_def example_table_def)

section \<open>The tests of the repository, replayed\<close>

text \<open>
  The model gives what the tests of the repository expect, for every generated UUID \<open>u\<close>
  and all clock readings: in "inserts, finds, updates and deletes objects" the table is
  empty, then holds the inserted record, then the updated one (same id and \<open>createdAt\<close>,
  new name, \<open>updatedAt\<close> the time of the update, which the test expects to be later),
  which the finders and \<open>get\<close> return and \<open>delete\<close> removes, after which \<open>update\<close>
  and \<open>delete\<close> fail with "no result". In "inserts and deletes many" the ten objects
  come back in order with ten ids, the callback \<open>value >= 5\<close> deletes the last five, the
  mapping \<open>{ value: 0 }\<close> the first, and \<open>truncate\<close> the rest. (The test "allows
  altering tables" is about \<open>alterTable\<close>, which is not modelled.)
\<close>

lemmas model_defs =
  findAll_def findBy_def findOneBy_def get_def count_def insert_repo_def
  insertAll_def update_def delete_def deleteBy_def truncate_repo_def
  exec_insert_def exec_update_def exec_delete_def execute_def execute_count_def
  executeTakeFirst_def takeFirst_def takeFirstOrThrow_def limit_offset_def negative_def
  matching_def matches_def known_columns_def known_keys_def defined_def constraints_ok_def
  not_null_def new_row_def assign_def insert_values_def update_values_def spread_def
  obj_get_def where_eq_def where_clause_def column_eq_def select_def deleteFrom_def
  sql_eq_def Let_def

lemma test_first:
  "findAll test_table = Inr []"
  "insert_repo test_table u n1 [(''name'', Str ''foo'')]
     = (Inr (Some (test_inserted u n1)), test_table\<lparr>rows := [test_inserted u n1]\<rparr>)"
  "findAll (test_table\<lparr>rows := [test_inserted u n1]\<rparr>) = Inr [test_inserted u n1]"
  "update (test_table\<lparr>rows := [test_inserted u n1]\<rparr>) n2 [(''id'', Str u), (''name'', Str ''bar'')]
     = (Inr (test_updated u n1 n2), test_table\<lparr>rows := [test_updated u n1 n2]\<rparr>)"
  "findAll (test_table\<lparr>rows := [test_updated u n1 n2]\<rparr>) = Inr [test_updated u n1 n2]"
  "findBy (test_table\<lparr>rows := [test_updated u n1 n2]\<rparr>) (Mapping [(''name'', Str ''bar'')])
     = Inr [test_updated u n1 n2]"
  "findOneBy (test_table\<lparr>rows := [test_updated u n1 n2]\<rparr>) (Mapping [(''name'', Str ''bar'')])
     = Inr (Some (test_updated u n1 n2))"
  "get (test_table\<lparr>rows := [test_updated u n1 n2]\<rparr>) (Str u) = Inr (Some (test_updated u n1 n2))"
  "findBy (test_table\<lparr>rows := [test_updated u n1 n2]\<rparr>) (Mapping [(''name'', Str ''foo'')])
     = Inr []"
  "count (test_table\<lparr>rows := [test_updated u n1 n2]\<rparr>) (Mapping []) = Inr 1"
  "delete (test_table\<lparr>rows := [test_updated u n1 n2]\<rparr>) (Str u)
     = (Inr (test_updated u n1 n2), test_table)"
  "count test_table (Mapping []) = Inr 0"
  "update test_table n3 [(''id'', Str u), (''name'', Str ''baz'')] = (Inl NoResultError, test_table)"
  "delete test_table (Str u) = (Inl NoResultError, test_table)"
  by (simp_all add: model_defs test_table_def test_inserted_def test_updated_def)

lemma test_many_insertAll:
  "insertAll test_many test_uuid now (map (\<lambda>v. [(''value'', Num v)]) [0, 1, 2, 3, 4, 5, 6, 7, 8, 9])
     = (Inr (test_objects now), test_many\<lparr>rows := test_objects now\<rparr>)"
  "distinct (map (\<lambda>r. obj_get r ''id'') (test_objects now))"
  by (simp_all add: model_defs test_many_def test_object_def test_objects_def test_uuid_def)

lemma test_many_deleteBy:
  "deleteBy (test_many\<lparr>rows := test_objects now\<rparr>) (Callback (where_ge ''value'' 5))
     = (Inr (drop 5 (test_objects now)), test_many\<lparr>rows := take 5 (test_objects now)\<rparr>)"
  "deleteBy (test_many\<lparr>rows := take 5 (test_objects now)\<rparr>) (Mapping [(''value'', Num 0)])
     = (Inr [test_object now 0 0], test_many\<lparr>rows := drop 1 (take 5 (test_objects now))\<rparr>)"
  "truncate_repo (test_many\<lparr>rows := drop 1 (take 5 (test_objects now))\<rparr>) = (Inr (), test_many)"
  "findAll test_many = Inr []"
  by (simp_all add: model_defs test_many_def test_object_def test_objects_def test_uuid_def
      where_ge_def column_ge_def)

section \<open>truncate\<close>

text \<open>
  C9. For every table, \<open>truncate\<close> leaves a table without rows: it returns without an
  error, a \<open>findAll\<close> that follows returns the empty sequence and a \<open>count()\<close> that
  follows (the default condition is the empty mapping) returns 0.
\<close>

theorem truncate_empties_table:
  "truncate_repo t = (Inr (), t\<lparr>rows := []\<rparr>)
   \<and> findAll (snd (truncate_repo t)) = Inr []
   \<and> count (snd (truncate_repo t)) (Mapping []) = Inr 0"
  by (simp add: truncate_repo_def exec_delete_def deleteFrom_def known_columns_def matches_def
      findAll_def execute_def select_def limit_offset_def negative_def matching_def
      count_def execute_count_def)

section \<open>count and findBy\<close>

text \<open>
  C6, as amended. For every table and every filter that is an exact-match mapping or a
  callback that only adds where conditions to the query, \<open>findBy\<close> returns the rows the
  filter selects, \<open>count\<close> returns their number, so \<open>count\<close> is the length of what
  \<open>findBy\<close> returns, and both fail with the same error when the filter names a column
  the table does not have; for the empty mapping \<open>findBy\<close> returns all rows and
  \<open>count\<close> their number.
\<close>

theorem count_is_length_findBy:
  "findBy t (condition_of F) = (if columns_known t F then Inr (filtered t F) else Inl SqlError)
   \<and> count t (condition_of F)
       = (if columns_known t F then Inr (int (length (filtered t F))) else Inl SqlError)
   \<and> count t (condition_of F)
       = (case findBy t (condition_of F) of Inl e \<Rightarrow> Inl e | Inr rs \<Rightarrow> Inr (int (length rs)))
   \<and> findBy t (Mapping []) = Inr (rows t)
   \<and> count t (Mapping []) = Inr (int (length (rows t)))"
proof -
  have "count t (Mapping []) = Inr (int (length (rows t)))"
    using count_filter[where t = t and F = "Exact []"]
    by (simp add: columns_known_def filtered_def exact_match_def)
  then show ?thesis
    by (simp add: findBy_filter count_filter findBy_all)
qed

text \<open>
  On the example table: the mapping \<open>{ name: "foo" }\<close> selects the rows \<open>a\<close> and
  \<open>c\<close>, the callback with the condition \<open>name = "bar" or id = "c"\<close> the rows \<open>b\<close> and
  \<open>c\<close>, and a mapping with a column the table does not have fails.
\<close>

theorem count_is_length_findBy_witness:
  "count example_table (Mapping [(''name'', Str ''foo'')]) = Inr 2
   \<and> findBy example_table (Mapping [(''name'', Str ''foo'')])
       = Inr [[(''id'', Str ''a''), (''createdAt'', Date 1), (''updatedAt'', Date 1),
               (''name'', Str ''foo'')],
              [(''id'', Str ''c''), (''createdAt'', Date 4), (''updatedAt'', Date 4),
               (''name'', Str ''foo'')]]
   \<and> count example_table (Callback (and_where [name_bar_or_id_c])) = Inr 2
   \<and> findBy example_table (Callback (and_where [name_bar_or_id_c]))
       = Inr [[(''id'', Str ''b''), (''createdAt'', Date 2), (''updatedAt'', Date 3),
               (''name'', Str ''bar'')],
              [(''id'', Str ''c''), (''createdAt'', Date 4), (''updatedAt'', Date 4),
               (''name'', Str ''foo'')]]
   \<and> count example_table (Mapping [(''colour'', Str ''red'')]) = Inl SqlError
   \<and> findBy example_table (Mapping [(''colour'', Str ''red'')]) = Inl SqlError"
proof -
  have u: "\<not> columns_known example_table (Exact [(''colour'', Str ''red'')])"
    by (simp add: columns_known_def example_table_def)
  show ?thesis
    using count_is_length_findBy[where t = example_table and F = "Exact [(''name'', Str ''foo'')]"]
      count_is_length_findBy[where t = example_table and F = "Conditions [name_bar_or_id_c]"]
      count_is_length_findBy[where t = example_table and F = "Exact [(''colour'', Str ''red'')]"]
    by (simp add: example_filtered u)
qed

text \<open>
  C6 as stated fails for a callback that limits the query: \<open>findBy\<close> returns one row,
  \<open>count\<close> still counts all three, since the limit applies to the one row of the
  counting query.
\<close>

theorem count_limit_callback_counterexample:
  "count example_table (Callback (limit 1)) = Inr 3
   \<and> findBy example_table (Callback (limit 1))
       = Inr [[(''id'', Str ''a''), (''createdAt'', Date 1), (''updatedAt'', Date 1),
               (''name'', Str ''foo'')]]"
  by (simp add: count_def findBy_def execute_count_def execute_def limit_def select_def
      known_columns_def limit_offset_def negative_def matching_def matches_def
      example_table_def)

section \<open>Objects, spread and the values of an insert\<close>

lemma obj_get_eq_iff: "v \<noteq> Undefined \<Longrightarrow> obj_get ob k = v \<longleftrightarrow> map_of ob k = Some v"
  by (auto simp: obj_get_def split: option.splits)

lemma map_of_fold_update:
  "distinct (map fst item) \<Longrightarrow>
   map_of (fold (\<lambda>(k, v). AList.update k v) item base) k
     = (case map_of item k of None \<Rightarrow> map_of base k | Some v \<Rightarrow> Some v)"
proof (induction item arbitrary: base)
  case Nil
  then show ?case by simp
next
  case (Cons p item)
  obtain k0 v0 where p: "p = (k0, v0)" by (cases p)
  from Cons.prems p have notin: "map_of item k0 = None"
    by (simp add: map_of_eq_None_iff)
  from Cons.prems have "distinct (map fst item)" by simp
  from Cons.IH[OF this, of "AList.update k0 v0 base"] notin show ?case
    by (auto simp: p update_conv' split: option.splits)
qed

lemma map_of_spread:
  "distinct (map fst item) \<Longrightarrow>
   map_of (spread base item) k = (case map_of item k of None \<Rightarrow> map_of base k | Some v \<Rightarrow> Some v)"
  by (simp add: spread_def map_of_fold_update)

lemma distinct_fold_update:
  "distinct (map fst base) \<Longrightarrow> distinct (map fst (fold (\<lambda>(k, v). AList.update k v) item base))"
  by (induction item arbitrary: base) (auto simp: distinct_update)

lemma distinct_insert_values: "distinct (map fst (insert_values uuid now item))"
  by (simp add: insert_values_def spread_def distinct_update distinct_fold_update)

lemma map_of_insert_values:
  assumes "distinct (map fst item)"
  shows "map_of (insert_values uuid now item) k =
     (if k = ''updatedAt'' \<or> k = ''createdAt'' then Some (Date now)
      else if k = ''id'' then Some (case map_of item ''id'' of None \<Rightarrow> Str uuid | Some v \<Rightarrow> v)
      else map_of item k)"
  using assms by (auto simp: insert_values_def update_conv' map_of_spread split: option.splits)

lemma map_of_defined:
  "distinct (map fst al) \<Longrightarrow>
   map_of (defined al) k
     = (case map_of al k of None \<Rightarrow> None | Some v \<Rightarrow> if v = Undefined then None else Some v)"
proof (induction al)
  case Nil
  then show ?case by (simp add: defined_def)
next
  case (Cons p al)
  obtain k0 v0 where p: "p = (k0, v0)" by (cases p)
  from Cons.prems p have notin: "map_of al k0 = None"
    by (simp add: map_of_eq_None_iff)
  from Cons show ?case using notin
    by (auto simp: p defined_def split: option.splits)
qed

lemma map_of_defined_insert_values:
  assumes "distinct (map fst item)"
  shows "map_of (defined (insert_values uuid now item)) k =
     (if k = ''updatedAt'' \<or> k = ''createdAt'' then Some (Date now)
      else if k = ''id'' then
        (case map_of item ''id'' of None \<Rightarrow> Some (Str uuid)
         | Some v \<Rightarrow> if v = Undefined then None else Some v)
      else map_of (defined item) k)"
  using assms
  by (simp add: map_of_defined distinct_insert_values map_of_insert_values split: option.splits)

lemma map_of_defined_update_same:
  "v \<noteq> Undefined \<Longrightarrow> map_of (defined (AList.update k v al)) k = Some v"
  by (induction al) (auto simp: defined_def)

lemma map_of_defined_update_other:
  "k' \<noteq> k \<Longrightarrow> map_of (defined (AList.update k v al)) k' = map_of (defined al) k'"
  by (induction al) (auto simp: defined_def)

lemma insert_values_timestamps:
  "map_of (defined (insert_values uuid now item)) ''createdAt'' = Some (Date now)"
  "map_of (defined (insert_values uuid now item)) ''updatedAt'' = Some (Date now)"
  by (simp_all add: insert_values_def map_of_defined_update_same map_of_defined_update_other)

lemma map_of_new_row:
  "map_of (new_row cols vals) c =
     (if c \<in> set cols then Some (case map_of (defined vals) c of None \<Rightarrow> Null | Some v \<Rightarrow> v)
      else None)"
  by (induction cols) (auto simp: new_row_def)

lemma obj_get_new_row:
  "c \<in> set cols \<Longrightarrow>
   obj_get (new_row cols vals) c = (case map_of (defined vals) c of None \<Rightarrow> Null | Some v \<Rightarrow> v)"
  by (simp add: obj_get_def map_of_new_row)

section \<open>Well-formed tables and look-up by id\<close>

lemma wf_table_columns:
  assumes "wf_table t"
  shows "''id'' \<in> set (columns t)" "''createdAt'' \<in> set (columns t)" "''updatedAt'' \<in> set (columns t)"
  using assms by (simp_all add: wf_table_def)

lemma known_keys_iff:
  "known_keys t vals \<longleftrightarrow> (\<forall>k v. (k, v) \<in> set vals \<and> v \<noteq> Undefined \<longrightarrow> k \<in> set (columns t))"
  by (auto simp: known_keys_def defined_def list_all_iff)

lemma known_keys_map_of:
  "distinct (map fst vals) \<Longrightarrow>
   known_keys t vals \<longleftrightarrow> (\<forall>k v. map_of vals k = Some v \<and> v \<noteq> Undefined \<longrightarrow> k \<in> set (columns t))"
  by (simp add: known_keys_iff)

lemma known_keys_insert_values:
  assumes "wf_table t" and "distinct (map fst item)"
  shows "known_keys t (insert_values uuid now item) = known_keys t item"
proof -
  let ?V = "insert_values uuid now item"
  let ?special = "\<lambda>k. k = ''id'' \<or> k = ''createdAt'' \<or> k = ''updatedAt''"
  have special: "?special k \<Longrightarrow> k \<in> set (columns t)" for k
    using wf_table_columns[OF assms(1)] by auto
  have other: "\<not> ?special k \<Longrightarrow> map_of ?V k = map_of item k" for k
    using assms(2) by (simp add: map_of_insert_values)
  have "known_keys t ?V \<longleftrightarrow>
          (\<forall>k v. map_of ?V k = Some v \<and> v \<noteq> Undefined \<longrightarrow> k \<in> set (columns t))"
    by (rule known_keys_map_of) (rule distinct_insert_values)
  also have "\<dots> \<longleftrightarrow> (\<forall>k v. map_of item k = Some v \<and> v \<noteq> Undefined \<longrightarrow> k \<in> set (columns t))"
    using special other by metis
  also have "\<dots> \<longleftrightarrow> known_keys t item"
    using assms(2) by (simp add: known_keys_map_of)
  finally show ?thesis .
qed

lemma matches_where_id:
  "matches (where_eq ''id'' v select)
     = (\<lambda>r. v \<noteq> Undefined \<and> v \<noteq> Null \<and> obj_get r ''id'' = v)"
  "matches (where_eq ''id'' v deleteFrom)
     = (\<lambda>r. v \<noteq> Undefined \<and> v \<noteq> Null \<and> obj_get r ''id'' = v)"
  by (auto simp: fun_eq_iff matches_def where_eq_def select_def deleteFrom_def sql_eq_def
      column_eq_def obj_get_def split: option.splits)

lemma filter_distinct_map:
  "distinct (map f xs) \<Longrightarrow> r \<in> set xs \<Longrightarrow> filter (\<lambda>x. f x = f r) xs = [r]"
proof (induction xs)
  case Nil
  then show ?case by simp
next
  case (Cons x xs)
  show ?case
  proof (cases "x = r")
    case True
    with Cons.prems have "f r \<notin> f ` set xs" by simp
    then have "\<forall>y\<in>set xs. f y \<noteq> f r" by (metis imageI)
    then have "filter (\<lambda>x. f x = f r) xs = []" by (simp add: filter_empty_conv)
    with True show ?thesis by simp
  next
    case False
    with Cons.prems have "r \<in> set xs" "f x \<noteq> f r" by auto
    with Cons show ?thesis by simp
  qed
qed

lemma wf_row_defined_id:
  assumes "wf_row cols r" and "k \<in> set cols"
  shows "obj_get r k \<noteq> Undefined"
proof -
  from assms obtain v where "(k, v) \<in> set r" by (force simp: wf_row_def)
  then obtain w where w: "map_of r k = Some w" by (meson weak_map_of_SomeI)
  then have "(k, w) \<in> set r" by (rule map_of_SomeD)
  with assms(1) have "w \<noteq> Undefined" by (auto simp: wf_row_def list_all_iff)
  with w show ?thesis by (simp add: obj_get_def)
qed

lemma known_columns_where_id:
  "known_columns t (where_eq ''id'' v select) = (''id'' \<in> set (columns t))"
  "known_columns t (where_eq ''id'' v deleteFrom) = (''id'' \<in> set (columns t))"
  by (simp_all add: known_columns_def where_eq_def select_def deleteFrom_def)

lemma where_id_no_limit:
  "qlimit (where_eq k v select) = None" "qoffset (where_eq k v select) = None"
  "qlimit (where_eq k v deleteFrom) = None" "qoffset (where_eq k v deleteFrom) = None"
  by (simp_all add: where_eq_def select_def deleteFrom_def)

lemma matching_id_unique:
  assumes "wf_table t" and "r \<in> set (rows t)"
  shows "filter (\<lambda>x. obj_get (r::row) ''id'' \<noteq> Undefined \<and> obj_get r ''id'' \<noteq> Null
                      \<and> obj_get x ''id'' = obj_get r ''id'') (rows t) = [r]"
proof -
  from assms have "wf_row (columns t) r" "not_null r"
    by (auto simp: wf_table_def constraints_ok_def list_all_iff)
  then have "obj_get r ''id'' \<noteq> Undefined" "obj_get r ''id'' \<noteq> Null"
    using wf_row_defined_id wf_table_columns(1)[OF assms(1)] by (auto simp: not_null_def)
  moreover have "filter (\<lambda>x. obj_get x ''id'' = obj_get r ''id'') (rows t) = [r]"
    using assms by (intro filter_distinct_map) (auto simp: wf_table_def constraints_ok_def)
  ultimately show ?thesis by simp
qed

lemma get_row:
  assumes "wf_table t" and "r \<in> set (rows t)"
  shows "get t (obj_get r ''id'') = Inr (Some r)"
  using matching_id_unique[OF assms] wf_table_columns(1)[OF assms(1)]
  by (simp add: get_def executeTakeFirst_def execute_plain where_id_no_limit
      known_columns_where_id matching_def matches_where_id)

lemma get_missing:
  assumes "''id'' \<in> set (columns t)" and "v \<notin> set (ids t)"
  shows "get t v = Inr None"
proof -
  from assms(2) have "filter (\<lambda>x. v \<noteq> Undefined \<and> v \<noteq> Null \<and> obj_get x ''id'' = v) (rows t) = []"
    by (auto simp: filter_empty_conv ids_def)
  with assms(1) show ?thesis
    by (simp add: get_def executeTakeFirst_def execute_plain where_id_no_limit
      known_columns_where_id matching_def matches_where_id)
qed

section \<open>insert: the id is keyed on the presence of the property\<close>

text \<open>
  C10. The values \<open>insert\<close> sends carry the generated UUID as \<open>id\<close> only when the item has
  no \<open>id\<close> property; an \<open>id\<close> property of the item, whatever its value, replaces it. When
  that value is \<open>undefined\<close>, the \<open>id\<close> sent is \<open>undefined\<close>: the statement has no \<open>id\<close>
  column, and the primary key refuses the row. (An object has no key twice.)
\<close>

theorem insert_id_keyed_on_presence:
  assumes "distinct (map fst item)"
  shows "obj_get (insert_values uuid now item) ''id''
           = (case map_of item ''id'' of None \<Rightarrow> Str uuid | Some v \<Rightarrow> v)
         \<and> (map_of item ''id'' = Some Undefined \<longrightarrow>
              obj_get (insert_values uuid now item) ''id'' = Undefined
              \<and> map_of (defined (insert_values uuid now item)) ''id'' = None
              \<and> (''id'' \<in> set (columns t) \<longrightarrow> insert_repo t uuid now item = (Inl SqlError, t)))"
proof -
  have 1: "obj_get (insert_values uuid now item) ''id''
           = (case map_of item ''id'' of None \<Rightarrow> Str uuid | Some v \<Rightarrow> v)"
    using assms by (simp add: obj_get_def map_of_insert_values)
  have 2: "map_of (defined (insert_values uuid now item)) ''id'' = None"
    if "map_of item ''id'' = Some Undefined"
    using assms that by (simp add: map_of_defined_insert_values)
  have 3: "insert_repo t uuid now item = (Inl SqlError, t)"
    if "map_of item ''id'' = Some Undefined" "''id'' \<in> set (columns t)"
  proof -
    have "obj_get (new_row (columns t) (insert_values uuid now item)) ''id'' = Null"
      using that 2 by (simp add: obj_get_new_row)
    then have "\<not> constraints_ok (rows t @ [new_row (columns t) (insert_values uuid now item)])"
      by (simp add: constraints_ok_def not_null_def)
    then show ?thesis
      by (simp add: insert_repo_def exec_insert_def)
  qed
  from 1 2 3 show ?thesis by simp
qed

theorem insert_id_keyed_on_presence_witness:
  "distinct (map fst [(''id'', Undefined), (''name'', Str ''x'')])
   \<and> map_of [(''id'', Undefined), (''name'', Str ''x'')] ''id'' = Some Undefined
   \<and> ''id'' \<in> set (columns example_table)
   \<and> obj_get (insert_values ''u'' 7 [(''id'', Undefined), (''name'', Str ''x'')]) ''id'' = Undefined
   \<and> insert_repo example_table ''u'' 7 [(''id'', Undefined), (''name'', Str ''x'')]
       = (Inl SqlError, example_table)
   \<and> obj_get (insert_values ''u'' 7 [(''name'', Str ''x'')]) ''id'' = Str ''u''"
  using insert_id_keyed_on_presence
          [of "[(''id'', Undefined), (''name'', Str ''x'')]" "''u''" 7 example_table]
        insert_id_keyed_on_presence [of "[(''name'', Str ''x'')]" "''u''" 7 example_table]
  by (simp add: example_table_def)

section \<open>insert\<close>

lemma map_of_defined_not_Undefined: "map_of (defined vals) c \<noteq> Some Undefined"
proof
  assume "map_of (defined vals) c = Some Undefined"
  then have "(c, Undefined) \<in> set (defined vals)" by (rule map_of_SomeD)
  then show False by (simp add: defined_def)
qed

lemma wf_row_new_row: "wf_row cols (new_row cols vals)"
proof -
  have "map fst (new_row cols vals) = cols"
    by (simp add: new_row_def comp_def)
  moreover have "list_all (\<lambda>(k, v). v \<noteq> Undefined) (new_row cols vals)"
    using map_of_defined_not_Undefined[of vals]
    by (auto simp: new_row_def list_all_iff split: option.splits)
  ultimately show ?thesis by (simp add: wf_row_def)
qed

lemma constraints_ok_append:
  "constraints_ok (rs @ news) \<longleftrightarrow>
     constraints_ok rs \<and> list_all not_null news \<and> distinct (map (\<lambda>r. obj_get r ''id'') news)
     \<and> set (map (\<lambda>r. obj_get r ''id'') rs) \<inter> set (map (\<lambda>r. obj_get r ''id'') news) = {}"
  by (auto simp: constraints_ok_def)

lemma exec_insert_eq:
  "exec_insert t vals =
     (if vals \<noteq> [] \<and> list_all (known_keys t) vals
         \<and> constraints_ok (rows t @ map (new_row (columns t)) vals)
      then (Inr (map (new_row (columns t)) vals),
            t\<lparr>rows := rows t @ map (new_row (columns t)) vals\<rparr>)
      else (Inl SqlError, t))"
  by (simp add: exec_insert_def Let_def)

lemma wf_table_insert:
  assumes "wf_table t" and "constraints_ok (rows t @ map (new_row (columns t)) vals)"
  shows "wf_table (t\<lparr>rows := rows t @ map (new_row (columns t)) vals\<rparr>)"
  using assms by (auto simp: wf_table_def wf_row_new_row list_all_iff)

lemma new_row_insert_values:
  assumes "wf_table t" and "distinct (map fst item)"
  shows "obj_get (new_row (columns t) (insert_values uuid now item)) ''createdAt'' = Date now"
    and "obj_get (new_row (columns t) (insert_values uuid now item)) ''updatedAt'' = Date now"
    and "obj_get (new_row (columns t) (insert_values uuid now item)) ''id''
           = (if assigned_id uuid item = Undefined then Null else assigned_id uuid item)"
    and "k \<in> set (columns t) \<Longrightarrow> k \<noteq> ''id'' \<Longrightarrow> k \<noteq> ''createdAt'' \<Longrightarrow> k \<noteq> ''updatedAt'' \<Longrightarrow>
         obj_get (new_row (columns t) (insert_values uuid now item)) k
           = (case map_of (defined item) k of None \<Rightarrow> Null | Some v \<Rightarrow> v)"
  using assms wf_table_columns[OF assms(1)]
  by (simp_all add: obj_get_new_row map_of_defined_insert_values assigned_id_def
      split: option.splits)

text \<open>
  C4. On a well-formed table, every call of \<open>insert\<close> that returns a record returns the
  row it has just written: the row is the last row of the new table and \<open>get\<close> on its id
  returns it; its id is the item's own \<open>id\<close> when the item has one and the generated UUID
  otherwise; its \<open>createdAt\<close> and \<open>updatedAt\<close> are both the \<open>now\<close> of the call; every
  other column has the item's value, or \<open>NULL\<close>. The call fails only when the database
  refuses the row (a column the table does not have, an id that is \<open>null\<close>, \<open>undefined\<close>
  or already in the table), and then the table is as before.
\<close>

theorem insert_returns_persisted_record:
  assumes "wf_table t" and "distinct (map fst item)"
  shows "case insert_repo t uuid now item of
           (Inl e, t') \<Rightarrow>
             e = SqlError \<and> t' = t
             \<and> \<not> (known_keys t item \<and> assigned_id uuid item \<noteq> Undefined
                  \<and> assigned_id uuid item \<noteq> Null \<and> assigned_id uuid item \<notin> set (ids t))
         | (Inr res, t') \<Rightarrow>
             (\<exists>r. res = Some r \<and> rows t' = rows t @ [r] \<and> columns t' = columns t
                \<and> wf_table t' \<and> get t' (assigned_id uuid item) = Inr (Some r)
                \<and> obj_get r ''id'' = assigned_id uuid item
                \<and> obj_get r ''createdAt'' = Date now \<and> obj_get r ''updatedAt'' = Date now
                \<and> (\<forall>k\<in>set (columns t). k \<noteq> ''id'' \<and> k \<noteq> ''createdAt'' \<and> k \<noteq> ''updatedAt'' \<longrightarrow>
                      obj_get r k = (case map_of (defined item) k of None \<Rightarrow> Null | Some v \<Rightarrow> v)))"
proof -
  let ?a = "assigned_id uuid item"
  let ?V = "insert_values uuid now item"
  let ?r = "new_row (columns t) ?V"
  let ?t' = "t\<lparr>rows := rows t @ [?r]\<rparr>"
  define ok where
    "ok \<longleftrightarrow> known_keys t item \<and> ?a \<noteq> Undefined \<and> ?a \<noteq> Null \<and> ?a \<notin> set (ids t)"
  note nr = new_row_insert_values[OF assms, where uuid = uuid and now = now]
  have old: "constraints_ok (rows t)" using assms(1) by (simp add: wf_table_def)
  have cons: "constraints_ok (rows t @ [?r]) \<longleftrightarrow> ?a \<noteq> Undefined \<and> ?a \<noteq> Null \<and> ?a \<notin> set (ids t)"
    using old nr(1,2,3) by (auto simp: constraints_ok_append not_null_def ids_def)
  have E: "exec_insert t [?V] = (if ok then (Inr [?r], ?t') else (Inl SqlError, t))"
    using cons by (simp add: exec_insert_eq known_keys_insert_values[OF assms] ok_def)
  show ?thesis
  proof (cases ok)
    case False
    then have "insert_repo t uuid now item = (Inl SqlError, t)"
      using E by (simp add: insert_repo_def)
    then show ?thesis using False by (simp add: ok_def)
  next
    case True
    then have res: "insert_repo t uuid now item = (Inr (Some ?r), ?t')"
      using E by (simp add: insert_repo_def takeFirst_def)
    from True cons have c': "constraints_ok (rows t @ map (new_row (columns t)) [?V])"
      by (simp add: ok_def)
    have wf': "wf_table ?t'" using wf_table_insert[OF assms(1) c'] by simp
    have id: "obj_get ?r ''id'' = ?a" using True nr(3) by (simp add: ok_def)
    have "get ?t' (obj_get ?r ''id'') = Inr (Some ?r)"
      by (rule get_row[OF wf']) simp
    then have g: "get ?t' ?a = Inr (Some ?r)" by (simp add: id)
    show ?thesis
      unfolding res using wf' g id nr(1,2,4) by simp
  qed
qed

theorem insert_returns_persisted_record_witness:
  "wf_table example_table \<and> distinct (map fst [(''name'', Str ''x'')])
   \<and> insert_repo example_table ''u'' 7 [(''name'', Str ''x'')]
       = (Inr (Some [(''id'', Str ''u''), (''createdAt'', Date 7), (''updatedAt'', Date 7),
                     (''name'', Str ''x'')]),
          example_table\<lparr>rows := rows example_table
             @ [[(''id'', Str ''u''), (''createdAt'', Date 7), (''updatedAt'', Date 7),
                 (''name'', Str ''x'')]]\<rparr>)
   \<and> get (snd (insert_repo example_table ''u'' 7 [(''name'', Str ''x'')])) (Str ''u'')
       = Inr (Some [(''id'', Str ''u''), (''createdAt'', Date 7), (''updatedAt'', Date 7),
                     (''name'', Str ''x'')])"
proof -
  have wf: "wf_table example_table"
    by (simp add: wf_table_def example_table_def wf_row_def constraints_ok_def not_null_def
        obj_get_def)
  have d: "distinct (map fst [(''name'', Str ''x'')])" by simp
  have r: "insert_repo example_table ''u'' 7 [(''name'', Str ''x'')]
       = (Inr (Some [(''id'', Str ''u''), (''createdAt'', Date 7), (''updatedAt'', Date 7),
                     (''name'', Str ''x'')]),
          example_table\<lparr>rows := rows example_table
             @ [[(''id'', Str ''u''), (''createdAt'', Date 7), (''updatedAt'', Date 7),
                 (''name'', Str ''x'')]]\<rparr>)"
    by (simp add: insert_repo_def exec_insert_def insert_values_def spread_def new_row_def
        defined_def known_keys_def constraints_ok_def not_null_def obj_get_def takeFirst_def
        example_table_def Let_def)
  have a: "assigned_id ''u'' [(''name'', Str ''x'')] = Str ''u''"
    by (simp add: assigned_id_def)
  from insert_returns_persisted_record[OF wf d, of "''u''" 7]
  show ?thesis using wf d unfolding r by (simp add: a)
qed

section \<open>insertAll\<close>

lemma list_all_map_enumerate:
  "list_all P (map f (enumerate 0 xs)) \<longleftrightarrow> (\<forall>i<length xs. P (f (i, xs ! i)))"
  by (simp add: list_all_length nth_enumerate_eq)

lemma insertAll_eq:
  "insertAll t uuid now items =
     exec_insert t (map (\<lambda>(i, item). insert_values (uuid i) now item) (enumerate 0 items))"
  by (simp add: insertAll_def)

text \<open>
  C5. On a well-formed table, every call of \<open>insertAll\<close> that returns, returns one row
  per item, in the order of the items, and has appended these rows to the table. The row
  at index \<open>i\<close> has the id of item \<open>i\<close> (its own, or the UUID generated for it), the one
  \<open>now\<close> of the call as \<open>createdAt\<close> and as \<open>updatedAt\<close>, and the item's values in
  the other columns. The ids of the rows returned are pairwise distinct: the primary key
  refuses a batch in which an id occurs twice. The call fails only when the database
  refuses the statement (no items, a column the table does not have, an id that is
  \<open>null\<close>, \<open>undefined\<close>, already in the table or twice in the batch), and then the table
  is as before.
\<close>

theorem insertAll_batch:
  assumes "wf_table t" and "\<forall>item\<in>set items. distinct (map fst item)"
  shows "case insertAll t uuid now items of
           (Inl e, t') \<Rightarrow>
             e = SqlError \<and> t' = t
             \<and> \<not> (items \<noteq> [] \<and> list_all (known_keys t) items
                  \<and> Undefined \<notin> set (assigned_ids uuid items)
                  \<and> Null \<notin> set (assigned_ids uuid items)
                  \<and> distinct (ids t @ assigned_ids uuid items))
         | (Inr rs, t') \<Rightarrow>
             length rs = length items \<and> rows t' = rows t @ rs \<and> columns t' = columns t
             \<and> wf_table t' \<and> distinct (map (\<lambda>r. obj_get r ''id'') rs)
             \<and> (\<forall>i<length items.
                   obj_get (rs ! i) ''id'' = assigned_id (uuid i) (items ! i)
                   \<and> obj_get (rs ! i) ''createdAt'' = Date now
                   \<and> obj_get (rs ! i) ''updatedAt'' = Date now
                   \<and> (\<forall>k\<in>set (columns t).
                         k \<noteq> ''id'' \<and> k \<noteq> ''createdAt'' \<and> k \<noteq> ''updatedAt'' \<longrightarrow>
                         obj_get (rs ! i) k
                           = (case map_of (defined (items ! i)) k of None \<Rightarrow> Null | Some v \<Rightarrow> v)))"
proof -
  let ?Vs = "map (\<lambda>(i, item). insert_values (uuid i) now item) (enumerate 0 items)"
  let ?news = "map (new_row (columns t)) ?Vs"
  let ?t' = "t\<lparr>rows := rows t @ ?news\<rparr>"
  let ?as = "assigned_ids uuid items"
  let ?id = "\<lambda>r. obj_get r ''id''"
  define ok where
    "ok \<longleftrightarrow> items \<noteq> [] \<and> list_all (known_keys t) items \<and> Undefined \<notin> set ?as \<and> Null \<notin> set ?as
           \<and> distinct (ids t @ ?as)"
  have d: "distinct (map fst (items ! i))" if "i < length items" for i
    using assms(2) that by simp
  have len: "length ?news = length items" by simp
  have nth: "?news ! i = new_row (columns t) (insert_values (uuid i) now (items ! i))"
    if "i < length items" for i
    using that by (simp add: nth_enumerate_eq)
  have as_nth: "?as ! i = assigned_id (uuid i) (items ! i)" if "i < length items" for i
    using that by (simp add: assigned_ids_def nth_enumerate_eq)
  have as_len: "length ?as = length items" by (simp add: assigned_ids_def)
  have id_nth: "?id (?news ! i) = (if ?as ! i = Undefined then Null else ?as ! i)"
    if "i < length items" for i
    using that new_row_insert_values(3)[OF assms(1) d[OF that]] by (simp only: nth as_nth)
  have ts_nth: "obj_get (?news ! i) ''createdAt'' = Date now"
               "obj_get (?news ! i) ''updatedAt'' = Date now"
    if "i < length items" for i
    using that new_row_insert_values(1,2)[OF assms(1) d[OF that]] by (simp_all only: nth)
  have other_nth: "obj_get (?news ! i) k
                     = (case map_of (defined (items ! i)) k of None \<Rightarrow> Null | Some v \<Rightarrow> v)"
    if "i < length items" "k \<in> set (columns t)" "k \<noteq> ''id''" "k \<noteq> ''createdAt''"
       "k \<noteq> ''updatedAt''" for i k
    using that new_row_insert_values(4)[OF assms(1) d[OF that(1)]] by (simp only: nth)
  have keys: "list_all (known_keys t) ?Vs \<longleftrightarrow> list_all (known_keys t) items"
    using known_keys_insert_values[OF assms(1) d]
    by (simp add: list_all_map_enumerate) (simp add: list_all_length)
  have nn: "list_all not_null ?news \<longleftrightarrow> Undefined \<notin> set ?as \<and> Null \<notin> set ?as"
  proof -
    have "list_all not_null ?news \<longleftrightarrow> (\<forall>i<length items. not_null (?news ! i))"
      using len by (simp only: list_all_length)
    also have "\<dots> \<longleftrightarrow> (\<forall>i<length items. ?as ! i \<noteq> Undefined \<and> ?as ! i \<noteq> Null)"
      using id_nth ts_nth by (auto simp: not_null_def)
    also have "\<dots> \<longleftrightarrow> Undefined \<notin> set ?as \<and> Null \<notin> set ?as"
      using as_len by (auto simp: in_set_conv_nth)
    finally show ?thesis .
  qed
  have ids_eq: "map ?id ?news = ?as" if "Undefined \<notin> set ?as"
  proof (rule nth_equalityI)
    show "length (map ?id ?news) = length ?as" using as_len by simp
  next
    fix i assume "i < length (map ?id ?news)"
    then have i: "i < length items" by simp
    then have "?as ! i \<in> set ?as" using as_len by simp
    with that have "?as ! i \<noteq> Undefined" by metis
    with id_nth[OF i] i show "map ?id ?news ! i = ?as ! i" by (simp del: map_map)
  qed
  have old: "constraints_ok (rows t)" using assms(1) by (simp add: wf_table_def)
  have cons: "constraints_ok (rows t @ ?news) \<longleftrightarrow>
                Undefined \<notin> set ?as \<and> Null \<notin> set ?as \<and> distinct (ids t @ ?as)"
  proof (cases "Undefined \<notin> set ?as")
    case True
    from old have "distinct (ids t)" by (simp add: constraints_ok_def ids_def)
    then show ?thesis
      using old nn ids_eq[OF True] True
      by (simp only: constraints_ok_append) (auto simp: ids_def)
  next
    case False
    then show ?thesis using nn by (simp add: constraints_ok_append)
  qed
  have empty: "?Vs = [] \<longleftrightarrow> items = []"
    by (cases items) simp_all
  have E: "insertAll t uuid now items = (if ok then (Inr ?news, ?t') else (Inl SqlError, t))"
    using cons keys empty by (simp only: insertAll_eq exec_insert_eq ok_def)
  show ?thesis
  proof (cases ok)
    case False
    then have "insertAll t uuid now items = (Inl SqlError, t)" using E by simp
    then show ?thesis using False by (simp add: ok_def)
  next
    case True
    then have res: "insertAll t uuid now items = (Inr ?news, ?t')" using E by simp
    from True cons have c': "constraints_ok (rows t @ ?news)" by (simp add: ok_def)
    have wf': "wf_table ?t'" by (rule wf_table_insert[OF assms(1) c'])
    from True have u: "Undefined \<notin> set ?as" by (simp add: ok_def)
    have dist: "distinct (map ?id ?news)"
      using True ids_eq[OF u] by (simp only: ok_def) simp
    have idi: "?id (?news ! i) = assigned_id (uuid i) (items ! i)" if "i < length items" for i
    proof -
      have "?as ! i \<in> set ?as" using that as_len by simp
      with u have "?as ! i \<noteq> Undefined" by metis
      with id_nth[OF that] as_nth[OF that] show ?thesis by simp
    qed
    show ?thesis
      unfolding res using len wf' dist idi ts_nth other_nth by simp
  qed
qed


theorem insertAll_batch_witness:
  "wf_table example_table
   \<and> distinct (map fst [(''name'', Str ''x'')])
   \<and> distinct (map fst [(''id'', Str ''k''), (''name'', Str ''y'')])
   \<and> insertAll example_table (\<lambda>i. if i = 0 then ''u'' else ''v'') 7
         [[(''name'', Str ''x'')], [(''id'', Str ''k''), (''name'', Str ''y'')]]
       = (Inr [[(''id'', Str ''u''), (''createdAt'', Date 7), (''updatedAt'', Date 7),
                (''name'', Str ''x'')],
               [(''id'', Str ''k''), (''createdAt'', Date 7), (''updatedAt'', Date 7),
                (''name'', Str ''y'')]],
          example_table\<lparr>rows := rows example_table
             @ [[(''id'', Str ''u''), (''createdAt'', Date 7), (''updatedAt'', Date 7),
                 (''name'', Str ''x'')],
                [(''id'', Str ''k''), (''createdAt'', Date 7), (''updatedAt'', Date 7),
                 (''name'', Str ''y'')]]\<rparr>)
   \<and> wf_table (snd (insertAll example_table (\<lambda>i. if i = 0 then ''u'' else ''v'') 7
         [[(''name'', Str ''x'')], [(''id'', Str ''k''), (''name'', Str ''y'')]]))"
proof -
  let ?items = "[[(''name'', Str ''x'')], [(''id'', Str ''k''), (''name'', Str ''y'')]]"
  let ?uuid = "\<lambda>i::nat. if i = 0 then ''u'' else ''v''"
  have wf: "wf_table example_table"
    by (simp add: wf_table_def example_table_def wf_row_def constraints_ok_def not_null_def
        obj_get_def)
  have d: "\<forall>item\<in>set ?items. distinct (map fst item)" by simp
  have r: "insertAll example_table ?uuid 7 ?items
       = (Inr [[(''id'', Str ''u''), (''createdAt'', Date 7), (''updatedAt'', Date 7),
                (''name'', Str ''x'')],
               [(''id'', Str ''k''), (''createdAt'', Date 7), (''updatedAt'', Date 7),
                (''name'', Str ''y'')]],
          example_table\<lparr>rows := rows example_table
             @ [[(''id'', Str ''u''), (''createdAt'', Date 7), (''updatedAt'', Date 7),
                 (''name'', Str ''x'')],
                [(''id'', Str ''k''), (''createdAt'', Date 7), (''updatedAt'', Date 7),
                 (''name'', Str ''y'')]]\<rparr>)"
    by (simp add: insertAll_def exec_insert_def insert_values_def spread_def new_row_def
        defined_def known_keys_def constraints_ok_def not_null_def obj_get_def
        example_table_def Let_def)
  from insertAll_batch[OF wf d, of ?uuid 7]
  show ?thesis using wf unfolding r by simp
qed

section \<open>findAllPaginated\<close>

lemma matches_limit_offset: "matches (offset a (limit b q)) = matches q"
  by (simp add: fun_eq_iff matches_def offset_def limit_def)

lemma matching_limit_offset:
  "matching t (offset a (limit b q)) = matching t q"
  "known_columns t (offset a (limit b q)) = known_columns t q"
  by (simp_all add: matching_def matches_limit_offset)
     (simp add: known_columns_def offset_def limit_def)

lemma execute_page:
  "execute t (offset a (limit b q)) =
     (if known_columns t q \<and> 0 \<le> b \<and> 0 \<le> a
      then Inr (take (nat b) (drop (nat a) (matching t q))) else Inl SqlError)"
proof -
  have "qlimit (offset a (limit b q)) = Some b" "qoffset (offset a (limit b q)) = Some a"
    by (simp_all add: offset_def limit_def)
  then show ?thesis
    by (auto simp: execute_def matching_limit_offset limit_offset_def negative_def)
qed

lemma filter_upt_range:
  "filter (\<lambda>i. a \<le> i \<and> i < b) [0..<m] = [a..<min b m]"
proof (induction m)
  case 0
  then show ?case by simp
next
  case (Suc m)
  consider "b \<le> m" | "m < b" "a \<le> m" | "m < b" "m < a" by linarith
  then show ?case
  proof cases
    case 1
    with Suc show ?thesis by (simp add: min_def)
  next
    case 2
    then have "min b (Suc m) = Suc m" "min b m = m" by simp_all
    with Suc 2 show ?thesis by simp
  next
    case 3
    then have "min b (Suc m) = Suc m" "min b m = m" by simp_all
    with Suc 3 show ?thesis by simp
  qed
qed

lemma take_drop_nth:
  "take n (drop a xs) = map ((!) xs) [a..<min (a + n) (length xs)]"
  by (rule nth_equalityI) (auto simp: min_def split: if_splits)

lemma positions_take_drop:
  assumes "0 \<le> lo" and "0 \<le> n"
  shows "positions xs lo (lo + n) = take (nat n) (drop (nat lo) xs)"
proof -
  have "(\<lambda>i. lo \<le> int i \<and> int i < lo + n) = (\<lambda>i. nat lo \<le> i \<and> i < nat lo + nat n)"
    using assms by (auto simp: fun_eq_iff)
  then show ?thesis
    by (simp add: positions_def filter_upt_range take_drop_nth)
qed

lemma ceil_div_ceiling:
  "1 \<le> n \<Longrightarrow> ceil_div a n = Finite \<lceil>real_of_int a / real_of_int n\<rceil>"
  by (simp add: ceil_div_def ceiling_divide_eq_div)

lemma findAllPaginated_filter:
  "findAllPaginated t p n (condition_of F)
     = (if columns_known t F \<and> 0 \<le> n \<and> 0 \<le> (p - 1) * n
        then Inr \<lparr>data = take (nat n) (drop (nat ((p - 1) * n)) (filtered t F)), page = p,
                  pageCount = ceil_div (int (length (filtered t F))) n, pageSize = n,
                  rowCount = int (length (filtered t F))\<rparr>
        else Inl SqlError)"
  by (simp add: findAllPaginated_def count_filter execute_page known_columns_filter
      matching_filter)

text \<open>
  C1, as amended. For every table, every page, every page size and every filter that is
  an exact-match mapping or a callback that only adds where conditions to the query:
  when the filter names only columns of the table, the page size is not negative and
  \<open>(page - 1) * pageSize\<close> is not negative, \<open>findAllPaginated\<close> returns as \<open>rowCount\<close>
  the number of rows the filter selects, as \<open>pageCount\<close> the value of
  \<open>Math.ceil(rowCount / pageSize)\<close> and as \<open>data\<close> the rows at the positions from
  \<open>(page - 1) * pageSize\<close> up to, not including, \<open>page * pageSize\<close> of the rows the
  filter selects; otherwise the call fails with the error of the database. In
  particular, when the filter names only columns of the table and the page and the page
  size are at least 1, the call returns, and \<open>pageCount\<close> is the ceiling of
  \<open>rowCount / pageSize\<close>.
\<close>

theorem findAllPaginated_page:
  "findAllPaginated t p n (condition_of F)
     = (if columns_known t F \<and> 0 \<le> n \<and> 0 \<le> (p - 1) * n
        then Inr \<lparr>data = positions (filtered t F) ((p - 1) * n) (p * n), page = p,
                  pageCount = ceil_div (int (length (filtered t F))) n, pageSize = n,
                  rowCount = int (length (filtered t F))\<rparr>
        else Inl SqlError)
   \<and> (columns_known t F \<and> 1 \<le> p \<and> 1 \<le> n \<longrightarrow>
        findAllPaginated t p n (condition_of F)
          = Inr \<lparr>data = positions (filtered t F) ((p - 1) * n) (p * n), page = p,
                 pageCount = Finite \<lceil>real (length (filtered t F)) / real_of_int n\<rceil>,
                 pageSize = n, rowCount = int (length (filtered t F))\<rparr>)"
proof -
  have pos: "positions (filtered t F) ((p - 1) * n) (p * n)
               = take (nat n) (drop (nat ((p - 1) * n)) (filtered t F))"
    if "0 \<le> n" "0 \<le> (p - 1) * n"
  proof -
    have "(p - 1) * n + n = p * n" by (simp add: algebra_simps)
    with positions_take_drop[OF that(2) that(1), where xs = "filtered t F"]
    show ?thesis by simp
  qed
  have A: "findAllPaginated t p n (condition_of F)
     = (if columns_known t F \<and> 0 \<le> n \<and> 0 \<le> (p - 1) * n
        then Inr \<lparr>data = positions (filtered t F) ((p - 1) * n) (p * n), page = p,
                  pageCount = ceil_div (int (length (filtered t F))) n, pageSize = n,
                  rowCount = int (length (filtered t F))\<rparr>
        else Inl SqlError)"
    using pos by (simp add: findAllPaginated_filter)
  have B: "findAllPaginated t p n (condition_of F)
          = Inr \<lparr>data = positions (filtered t F) ((p - 1) * n) (p * n), page = p,
                 pageCount = Finite \<lceil>real (length (filtered t F)) / real_of_int n\<rceil>,
                 pageSize = n, rowCount = int (length (filtered t F))\<rparr>"
    if h: "columns_known t F \<and> 1 \<le> p \<and> 1 \<le> n"
  proof -
    from h have "0 \<le> n" "0 \<le> (p - 1) * n" by simp_all
    with A h show ?thesis by (simp add: ceil_div_ceiling)
  qed
  from A B show ?thesis by blast
qed

text \<open>
  On the example table: page 2 of size 1 of the mapping \<open>{ name: "foo" }\<close> is the row
  \<open>c\<close>, the second of the two rows the mapping selects; page 1 of size 2 of the
  callback with the condition \<open>name = "bar" or id = "c"\<close> is the rows \<open>b\<close> and \<open>c\<close>.
\<close>

theorem findAllPaginated_page_witness:
  "columns_known example_table (Exact [(''name'', Str ''foo'')])
   \<and> columns_known example_table (Conditions [name_bar_or_id_c])
   \<and> findAllPaginated example_table 2 1 (Mapping [(''name'', Str ''foo'')])
       = Inr \<lparr>data = [[(''id'', Str ''c''), (''createdAt'', Date 4), (''updatedAt'', Date 4),
                       (''name'', Str ''foo'')]],
              page = 2, pageCount = Finite 2, pageSize = 1, rowCount = 2\<rparr>
   \<and> findAllPaginated example_table 1 2 (Callback (and_where [name_bar_or_id_c]))
       = Inr \<lparr>data = [[(''id'', Str ''b''), (''createdAt'', Date 2), (''updatedAt'', Date 3),
                       (''name'', Str ''bar'')],
                      [(''id'', Str ''c''), (''createdAt'', Date 4), (''updatedAt'', Date 4),
                       (''name'', Str ''foo'')]],
              page = 1, pageCount = Finite 1, pageSize = 2, rowCount = 2\<rparr>"
  using findAllPaginated_page
          [where t = example_table and p = 2 and n = 1 and F = "Exact [(''name'', Str ''foo'')]"]
    findAllPaginated_page
          [where t = example_table and p = 1 and n = 2 and F = "Conditions [name_bar_or_id_c]"]
  by (simp add: example_filtered positions_def ceil_div_def)

text \<open>
  C1 as stated fails for a callback that limits the query: the filtered set, what
  \<open>findBy\<close> returns for the callback, is one row, while \<open>findAllPaginated\<close> reports the
  row count 3 (the limit applies to the one row of the counting query) and returns two
  rows as page 1 of size 2 (the limit of the page replaces the limit of the callback).
\<close>

theorem paginated_limit_callback_counterexample:
  "findBy example_table (Callback (limit 1))
     = Inr [[(''id'', Str ''a''), (''createdAt'', Date 1), (''updatedAt'', Date 1),
             (''name'', Str ''foo'')]]
   \<and> findAllPaginated example_table 1 2 (Callback (limit 1))
       = Inr \<lparr>data = [[(''id'', Str ''a''), (''createdAt'', Date 1), (''updatedAt'', Date 1),
                       (''name'', Str ''foo'')],
                      [(''id'', Str ''b''), (''createdAt'', Date 2), (''updatedAt'', Date 3),
                       (''name'', Str ''bar'')]],
              page = 1, pageCount = Finite 2, pageSize = 2, rowCount = 3\<rparr>"
  by (simp add: findBy_def findAllPaginated_def count_def execute_count_def execute_def
      limit_def offset_def select_def known_columns_def limit_offset_def negative_def
      matching_def matches_def ceil_div_def example_table_def)

section \<open>All pages together\<close>

lemma concat_pages_filter:
  assumes "columns_known t F" and "0 \<le> n" and "\<forall>p\<in>set ps. 1 \<le> p"
  shows "concat_pages t n (condition_of F) ps
           = Inr (concat (map (\<lambda>p. take (nat n) (drop (nat ((p - 1) * n)) (filtered t F))) ps))"
  using assms(3)
proof (induction ps)
  case Nil
  then show ?case by simp
next
  case (Cons p ps)
  then have "1 \<le> p" by simp
  with assms(2) have "0 \<le> (p - 1) * n" by simp
  with assms(1,2) Cons show ?case by (simp add: findAllPaginated_filter)
qed

lemma concat_slices:
  "concat (map (\<lambda>i. take n (drop (i * n) xs)) [0..<k]) = take (k * n) xs"
proof (induction k)
  case 0
  then show ?case by simp
next
  case (Suc k)
  have "take (k * n + n) xs = take (k * n) xs @ take n (drop (k * n) xs)"
    by (rule take_add)
  with Suc show ?case by (simp add: add.commute)
qed

lemma upto_from_1: "[1..int k] = map (\<lambda>i. int i + 1) [0..<k]"
proof (induction k)
  case 0
  then show ?case by simp
next
  case (Suc k)
  have "[1..int (Suc k)] = [1..int (Suc k) - 1] @ [int (Suc k)]"
    by (rule upto_rec2) simp
  with Suc show ?case by simp
qed

lemma ceiling_covers:
  assumes "1 \<le> n"
  shows "0 \<le> \<lceil>real m / real_of_int n\<rceil>"
    and "m \<le> nat \<lceil>real m / real_of_int n\<rceil> * nat n"
proof -
  let ?K = "\<lceil>real m / real_of_int n\<rceil>"
  from assms have n: "0 < real_of_int n" by simp
  then have "0 \<le> real m / real_of_int n" by simp
  then show K: "0 \<le> ?K" by (simp add: ceiling_le_iff[symmetric] order_trans[OF _ le_of_int_ceiling])
  from n have "real m \<le> of_int ?K * real_of_int n" by (rule ceiling_divide_upper)
  then have "int m \<le> ?K * n" by (metis of_int_le_iff of_int_mult of_int_of_nat_eq)
  also have "\<dots> = int (nat ?K) * int (nat n)" using K assms by simp
  also have "\<dots> = int (nat ?K * nat n)" by (simp only: of_nat_mult)
  finally show "m \<le> nat ?K * nat n" by (simp only: of_nat_le_iff)
qed

lemma concat_all_pages:
  assumes "1 \<le> n"
  shows "concat (map (\<lambda>p. take (nat n) (drop (nat ((p - 1) * n)) xs))
                     [1..\<lceil>real (length xs) / real_of_int n\<rceil>]) = xs"
proof -
  let ?K = "\<lceil>real (length xs) / real_of_int n\<rceil>"
  note c = ceiling_covers[OF assms, of "length xs"]
  have "[1..?K] = [1..int (nat ?K)]" using c(1) by simp
  also have "\<dots> = map (\<lambda>i. int i + 1) [0..<nat ?K]" by (rule upto_from_1)
  finally have "map (\<lambda>p. take (nat n) (drop (nat ((p - 1) * n)) xs)) [1..?K]
                  = map (\<lambda>i. take (nat n) (drop (nat (int i * n)) xs)) [0..<nat ?K]"
    by (simp add: comp_def)
  also have "\<dots> = map (\<lambda>i. take (nat n) (drop (i * nat n) xs)) [0..<nat ?K]"
    using assms by (simp add: nat_mult_distrib)
  finally show ?thesis
    using c(2) by (simp add: concat_slices)
qed

text \<open>
  C7, as amended. For every table, every page size \<open>n\<close> of at least 1 and every filter
  that is an exact-match mapping or a callback that only adds where conditions to the
  query, and names only columns of the table: page 1 reports the number of rows the
  filter selects as \<open>rowCount\<close> and the ceiling of \<open>rowCount / n\<close> as \<open>pageCount\<close>,
  and the \<open>data\<close> of the pages 1 to \<open>pageCount\<close>, concatenated, is the list of the rows
  the filter selects: each of them once, and no id twice when the table's constraints
  hold.
\<close>

theorem pages_reproduce_filtered_set:
  assumes "1 \<le> n" and "columns_known t F"
  shows "findAllPaginated t 1 n (condition_of F)
           = Inr \<lparr>data = take (nat n) (filtered t F),
                  page = 1,
                  pageCount = Finite \<lceil>real (length (filtered t F)) / real_of_int n\<rceil>,
                  pageSize = n,
                  rowCount = int (length (filtered t F))\<rparr>
         \<and> concat_pages t n (condition_of F)
             [1..\<lceil>real (length (filtered t F)) / real_of_int n\<rceil>]
             = Inr (filtered t F)
         \<and> (constraints_ok (rows t) \<longrightarrow>
              distinct (map (\<lambda>r. obj_get r ''id'') (filtered t F)))"
proof -
  let ?F = "filtered t F"
  let ?K = "\<lceil>real (length ?F) / real_of_int n\<rceil>"
  from assms(1) have n0: "0 \<le> n" by simp
  have "findAllPaginated t 1 n (condition_of F)
           = Inr \<lparr>data = take (nat n) ?F, page = 1, pageCount = Finite ?K, pageSize = n,
                  rowCount = int (length ?F)\<rparr>"
    using assms n0 by (simp add: findAllPaginated_filter ceil_div_ceiling)
  moreover have "concat_pages t n (condition_of F) [1..?K] = Inr ?F"
    using concat_pages_filter[OF assms(2) n0, where ps = "[1..?K]"]
      concat_all_pages[OF assms(1), where xs = ?F]
    by simp
  moreover have "distinct (map (\<lambda>r. obj_get r ''id'') ?F)" if "constraints_ok (rows t)"
    using that by (simp add: constraints_ok_def filtered_def distinct_map_filter)
  ultimately show ?thesis by simp
qed

text \<open>
  On the example table: the two pages of size 1 of the mapping \<open>{ name: "foo" }\<close> are the
  rows \<open>a\<close> and \<open>c\<close>; the one page of size 2 of the callback with the condition
  \<open>name = "bar" or id = "c"\<close> is the rows \<open>b\<close> and \<open>c\<close>.
\<close>

theorem pages_reproduce_filtered_set_witness:
  "(1::int) \<le> 1 \<and> (1::int) \<le> 2
   \<and> columns_known example_table (Exact [(''name'', Str ''foo'')])
   \<and> columns_known example_table (Conditions [name_bar_or_id_c])
   \<and> concat_pages example_table 1 (Mapping [(''name'', Str ''foo'')]) [1..2]
       = Inr [[(''id'', Str ''a''), (''createdAt'', Date 1), (''updatedAt'', Date 1),
               (''name'', Str ''foo'')],
              [(''id'', Str ''c''), (''createdAt'', Date 4), (''updatedAt'', Date 4),
               (''name'', Str ''foo'')]]
   \<and> concat_pages example_table 2 (Callback (and_where [name_bar_or_id_c])) [1..1]
       = Inr [[(''id'', Str ''b''), (''createdAt'', Date 2), (''updatedAt'', Date 3),
               (''name'', Str ''bar'')],
              [(''id'', Str ''c''), (''createdAt'', Date 4), (''updatedAt'', Date 4),
               (''name'', Str ''foo'')]]"
  using pages_reproduce_filtered_set
          [where t = example_table and n = 1 and F = "Exact [(''name'', Str ''foo'')]"]
    pages_reproduce_filtered_set
          [where t = example_table and n = 2 and F = "Conditions [name_bar_or_id_c]"]
  by (simp add: example_filtered)

text \<open>
  C7 as stated fails for the page size 0: the page count is \<open>Math.ceil(3 / 0)\<close>, that is
  \<open>Infinity\<close>, and the page is empty, as every page is, while three rows pass the
  condition.
\<close>

theorem page_size_zero_counterexample:
  "findAllPaginated example_table 1 0 (Mapping [])
     = Inr \<lparr>data = [], page = 1, pageCount = PosInfinity, pageSize = 0, rowCount = 3\<rparr>"
  by (simp add: findAllPaginated_def count_def execute_count_def execute_def limit_def
      offset_def select_def known_columns_def limit_offset_def negative_def matching_def
      matches_def ceil_div_def example_table_def)

section \<open>deleteBy\<close>

lemma exec_delete_eq:
  "exec_delete t q =
     (if known_columns t q \<and> qlimit q = None \<and> qoffset q = None
      then (Inr (filter (matches q) (rows t)), t\<lparr>rows := filter (\<lambda>r. \<not> matches q r) (rows t)\<rparr>)
      else (Inl SqlError, t))"
  by (simp add: exec_delete_def matching_def)

lemma deleteBy_filter:
  "deleteBy t (condition_of F)
     = (if columns_known t F
        then (Inr (filtered t F), t\<lparr>rows := filter (\<lambda>r. \<not> passes F r) (rows t)\<rparr>)
        else (Inl SqlError, t))"
  by (simp add: deleteBy_def exec_delete_eq deleteFrom_select filter_no_limit
      known_columns_filter matches_filter filtered_def)

text \<open>
  C8, as amended. For every table and every filter that is an exact-match mapping or a
  callback that only adds where conditions to the query: when the filter names only
  columns of the table, \<open>deleteBy\<close> returns exactly the rows the filter selects, as
  they were, and leaves exactly the other rows, unchanged and in their order; a
  \<open>findAll\<close> that follows returns these other rows; when the filter selects no row the
  result is the empty sequence and the table is as before. When the filter names a
  column the table does not have, the call fails with the error of the database and the
  table is as before.
\<close>

theorem deleteBy_removes_matching:
  "deleteBy t (condition_of F)
     = (if columns_known t F
        then (Inr (filtered t F), t\<lparr>rows := filter (\<lambda>r. \<not> passes F r) (rows t)\<rparr>)
        else (Inl SqlError, t))
   \<and> (columns_known t F \<longrightarrow>
        findAll (snd (deleteBy t (condition_of F))) = Inr (filter (\<lambda>r. \<not> passes F r) (rows t)))
   \<and> (columns_known t F \<and> filtered t F = [] \<longrightarrow> deleteBy t (condition_of F) = (Inr [], t))"
proof -
  have "filter (\<lambda>r. \<not> passes F r) (rows t) = rows t" if "filtered t F = []"
    using that by (simp add: filtered_def filter_empty_conv filter_id_conv)
  then show ?thesis
    by (simp add: deleteBy_filter findAll_eq)
qed

text \<open>
  On the example table: the mapping \<open>{ name: "foo" }\<close> deletes the rows \<open>a\<close> and \<open>c\<close>
  and leaves \<open>b\<close>; the callback with the condition \<open>name = "bar" or id = "c"\<close> deletes
  the rows \<open>b\<close> and \<open>c\<close> and leaves \<open>a\<close>; a callback with the condition
  \<open>name = "baz"\<close> deletes nothing.
\<close>

theorem deleteBy_removes_matching_witness:
  "columns_known example_table (Exact [(''name'', Str ''foo'')])
   \<and> columns_known example_table (Conditions [name_bar_or_id_c])
   \<and> columns_known example_table (Conditions [Where [''name''] (column_eq ''name'' (Str ''baz''))])
   \<and> filtered example_table (Conditions [Where [''name''] (column_eq ''name'' (Str ''baz''))]) = []
   \<and> deleteBy example_table (Mapping [(''name'', Str ''foo'')])
       = (Inr [[(''id'', Str ''a''), (''createdAt'', Date 1), (''updatedAt'', Date 1),
                (''name'', Str ''foo'')],
               [(''id'', Str ''c''), (''createdAt'', Date 4), (''updatedAt'', Date 4),
                (''name'', Str ''foo'')]],
          example_table\<lparr>rows := [[(''id'', Str ''b''), (''createdAt'', Date 2),
                                   (''updatedAt'', Date 3), (''name'', Str ''bar'')]]\<rparr>)
   \<and> findAll (snd (deleteBy example_table (Mapping [(''name'', Str ''foo'')])))
       = Inr [[(''id'', Str ''b''), (''createdAt'', Date 2), (''updatedAt'', Date 3),
               (''name'', Str ''bar'')]]
   \<and> deleteBy example_table (Callback (and_where [name_bar_or_id_c]))
       = (Inr [[(''id'', Str ''b''), (''createdAt'', Date 2), (''updatedAt'', Date 3),
                (''name'', Str ''bar'')],
               [(''id'', Str ''c''), (''createdAt'', Date 4), (''updatedAt'', Date 4),
                (''name'', Str ''foo'')]],
          example_table\<lparr>rows := [[(''id'', Str ''a''), (''createdAt'', Date 1),
                                   (''updatedAt'', Date 1), (''name'', Str ''foo'')]]\<rparr>)
   \<and> deleteBy example_table
         (Callback (and_where [Where [''name''] (column_eq ''name'' (Str ''baz''))]))
       = (Inr [], example_table)"
  using deleteBy_removes_matching
          [where t = example_table and F = "Exact [(''name'', Str ''foo'')]"]
    deleteBy_removes_matching[where t = example_table and F = "Conditions [name_bar_or_id_c]"]
    deleteBy_removes_matching
          [where t = example_table
             and F = "Conditions [Where [''name''] (column_eq ''name'' (Str ''baz''))]"]
  by (simp add: columns_known_def filtered_def exact_match_def name_bar_or_id_c_def
      column_eq_def sql_eq_def findAll_eq example_table_def)

text \<open>
  C8 as stated fails for a callback that limits the query: no row has the name \<open>baz\<close>,
  so that \<open>findBy\<close> returns the empty sequence for the callback, and \<open>deleteBy\<close>
  fails where the claim has it return the empty sequence; and for the callback that
  only limits the query, \<open>findBy\<close> returns the row \<open>a\<close>, which \<open>deleteBy\<close> does not
  remove.
\<close>

theorem deleteBy_limit_callback_counterexample:
  "findBy example_table (Callback (\<lambda>q. limit 1 (where_eq ''name'' (Str ''baz'') q))) = Inr []
   \<and> deleteBy example_table (Callback (\<lambda>q. limit 1 (where_eq ''name'' (Str ''baz'') q)))
       = (Inl SqlError, example_table)
   \<and> findBy example_table (Callback (limit 1))
       = Inr [[(''id'', Str ''a''), (''createdAt'', Date 1), (''updatedAt'', Date 1),
               (''name'', Str ''foo'')]]
   \<and> deleteBy example_table (Callback (limit 1)) = (Inl SqlError, example_table)"
  by (simp add: findBy_def deleteBy_def exec_delete_def execute_def limit_def where_eq_def
      select_def deleteFrom_def known_columns_def limit_offset_def negative_def matching_def
      matches_def column_eq_def sql_eq_def example_table_def)

section \<open>update, delete and the error for a missing row\<close>

lemma wf_ids_defined:
  assumes "wf_table t" and "v \<in> set (ids t)"
  shows "v \<noteq> Undefined" and "v \<noteq> Null"
proof -
  from assms(2) obtain r where r: "r \<in> set (rows t)" "v = obj_get r ''id''"
    by (auto simp: ids_def)
  with assms(1) have "wf_row (columns t) r" "not_null r"
    by (auto simp: wf_table_def constraints_ok_def list_all_iff)
  with r wf_table_columns(1)[OF assms(1)] show "v \<noteq> Undefined" "v \<noteq> Null"
    using wf_row_defined_id by (auto simp: not_null_def)
qed

lemma no_match_missing_id:
  assumes "v \<notin> set (ids t)"
  shows "filter (\<lambda>r. v \<noteq> Undefined \<and> v \<noteq> Null \<and> obj_get r ''id'' = v) (rows t) = []"
  using assms by (auto simp: filter_empty_conv ids_def)

lemma match_present_id:
  assumes "wf_table t" and "v \<in> set (ids t)"
  shows "filter (\<lambda>r. v \<noteq> Undefined \<and> v \<noteq> Null \<and> obj_get r ''id'' = v) (rows t) \<noteq> []"
  using assms wf_ids_defined[OF assms] by (auto simp: filter_empty_conv ids_def)

lemma set_update_subset: "set (AList.update k v al) \<subseteq> insert (k, v) (set al)"
  by (induction al) auto

lemma set_update_other: "(k', v') \<in> set al \<Longrightarrow> k' \<noteq> k \<Longrightarrow> (k', v') \<in> set (AList.update k v al)"
  by (induction al) auto

lemma known_keys_update_values:
  assumes "''updatedAt'' \<in> set (columns t)"
  shows "known_keys t (update_values now item) = known_keys t item"
proof
  assume l: "known_keys t (update_values now item)"
  show "known_keys t item"
    unfolding known_keys_iff
  proof (intro allI impI)
    fix k v assume kv: "(k, v) \<in> set item \<and> v \<noteq> Undefined"
    show "k \<in> set (columns t)"
    proof (cases "k = ''updatedAt''")
      case True
      with assms show ?thesis by simp
    next
      case False
      with kv have "(k, v) \<in> set (update_values now item)"
        by (simp add: update_values_def set_update_other)
      with l kv show ?thesis unfolding known_keys_iff by blast
    qed
  qed
next
  assume r: "known_keys t item"
  show "known_keys t (update_values now item)"
    unfolding known_keys_iff
  proof (intro allI impI)
    fix k v assume kv: "(k, v) \<in> set (update_values now item) \<and> v \<noteq> Undefined"
    then have "(k, v) = (''updatedAt'', Date now) \<or> (k, v) \<in> set item"
      using set_update_subset[of "''updatedAt''" "Date now" item]
      by (auto simp: update_values_def)
    with assms r kv show "k \<in> set (columns t)" unfolding known_keys_iff by blast
  qed
qed

lemma exec_update_eq:
  "exec_update t q vals =
     (if known_columns t q \<and> known_keys t vals
         \<and> constraints_ok (map (\<lambda>r. if matches q r then assign vals r else r) (rows t))
      then (Inr (map (assign vals) (filter (matches q) (rows t))),
            t\<lparr>rows := map (\<lambda>r. if matches q r then assign vals r else r) (rows t)\<rparr>)
      else (Inl SqlError, t))"
  by (simp add: exec_update_def Let_def matching_def)

lemma update_missing_id:
  assumes "wf_table t" and "obj_get item ''id'' \<notin> set (ids t)"
  shows "update t now item
           = (if known_keys t item then (Inl NoResultError, t) else (Inl SqlError, t))"
proof -
  let ?q = "where_eq ''id'' (obj_get item ''id'') select"
  have none: "filter (matches ?q) (rows t) = []"
    using no_match_missing_id[OF assms(2)] by (simp add: matches_where_id)
  then have "\<forall>r\<in>set (rows t). \<not> matches ?q r" by (simp add: filter_empty_conv)
  then have same: "map (\<lambda>r. if matches ?q r then assign (update_values now item) r else r) (rows t)
                     = rows t"
    by (simp add: map_idI)
  have "constraints_ok (rows t)" "known_columns t ?q"
    using assms(1) wf_table_columns(1)[OF assms(1)]
    by (simp_all add: wf_table_def known_columns_where_id)
  then show ?thesis
    using none same known_keys_update_values[OF wf_table_columns(3)[OF assms(1)]]
    by (simp add: update_def exec_update_eq takeFirstOrThrow_def)
qed

lemma update_present_id:
  assumes "wf_table t" and "obj_get item ''id'' \<in> set (ids t)"
  shows "fst (update t now item) \<noteq> Inl NoResultError"
proof -
  let ?q = "where_eq ''id'' (obj_get item ''id'') select"
  have "filter (matches ?q) (rows t) \<noteq> []"
    using match_present_id[OF assms] by (simp add: matches_where_id)
  then obtain r rs where "filter (matches ?q) (rows t) = r # rs"
    by (cases "filter (matches ?q) (rows t)") auto
  then show ?thesis
    by (simp add: update_def exec_update_eq takeFirstOrThrow_def)
qed

lemma delete_missing_id:
  assumes "wf_table t" and "v \<notin> set (ids t)"
  shows "delete t v = (Inl NoResultError, t)"
proof -
  have "filter (matches (where_eq ''id'' v deleteFrom)) (rows t) = []"
    using no_match_missing_id[OF assms(2)] by (simp add: matches_where_id)
  moreover from this have "filter (\<lambda>r. \<not> matches (where_eq ''id'' v deleteFrom) r) (rows t) = rows t"
    by (simp add: filter_empty_conv filter_id_conv)
  ultimately show ?thesis
    using wf_table_columns(1)[OF assms(1)]
    by (simp add: delete_def exec_delete_eq known_columns_where_id where_id_no_limit
        takeFirstOrThrow_def)
qed

lemma delete_present_id:
  assumes "wf_table t" and "v \<in> set (ids t)"
  shows "fst (delete t v) \<noteq> Inl NoResultError"
proof -
  have "filter (matches (where_eq ''id'' v deleteFrom)) (rows t) \<noteq> []"
    using match_present_id[OF assms] by (simp add: matches_where_id)
  then obtain r rs where "filter (matches (where_eq ''id'' v deleteFrom)) (rows t) = r # rs"
    by (cases "filter (matches (where_eq ''id'' v deleteFrom)) (rows t)") auto
  then show ?thesis
    using wf_table_columns(1)[OF assms(1)]
    by (simp add: delete_def exec_delete_eq known_columns_where_id where_id_no_limit
        takeFirstOrThrow_def)
qed

lemma nothing_matches:
  assumes "columns_known t F" and "filtered t F = []"
  shows "findOneBy t (condition_of F) = Inr None" and "findBy t (condition_of F) = Inr []"
    and "count t (condition_of F) = Inr 0"
    and "deleteBy t (condition_of F) = (Inr [], t)"
    and "1 \<le> p \<Longrightarrow> 0 \<le> n \<Longrightarrow>
         findAllPaginated t p n (condition_of F)
           = Inr \<lparr>data = [], page = p, pageCount = ceil_div 0 n, pageSize = n, rowCount = 0\<rparr>"
proof -
  show "findOneBy t (condition_of F) = Inr None"
    using assms
    by (simp add: findOneBy_def executeTakeFirst_def execute_plain filter_no_limit
        known_columns_filter matching_filter)
  show "findBy t (condition_of F) = Inr []" "count t (condition_of F) = Inr 0"
    using assms by (simp_all add: findBy_filter count_filter)
  from assms(2) have "filter (\<lambda>r. \<not> passes F r) (rows t) = rows t"
    by (simp add: filtered_def filter_empty_conv filter_id_conv)
  with assms show "deleteBy t (condition_of F) = (Inr [], t)"
    by (simp add: deleteBy_filter)
  show "findAllPaginated t p n (condition_of F)
           = Inr \<lparr>data = [], page = p, pageCount = ceil_div 0 n, pageSize = n, rowCount = 0\<rparr>"
    if "1 \<le> p" "0 \<le> n"
  proof -
    from that have "0 \<le> (p - 1) * n" by simp
    with assms that show ?thesis by (simp add: findAllPaginated_filter)
  qed
qed

text \<open>
  C3, as amended. On a table that satisfies the constraints of a managed table,
  \<open>update\<close>, with an item whose defined properties are columns of the table, and
  \<open>delete\<close> end in the \<open>NoResultError\<close> exactly when no row has the given id, and the
  table is then as before. \<open>get\<close> returns \<open>undefined\<close> for an id no row has and
  \<open>findAll\<close> always returns the rows. For a filter that is an exact-match mapping or a
  callback that only adds where conditions to the query, that names only columns of the
  table and selects no row, \<open>findOneBy\<close> returns \<open>undefined\<close>, \<open>findBy\<close> and
  \<open>deleteBy\<close> return the empty sequence, \<open>count\<close> returns 0, and \<open>findAllPaginated\<close>
  (page at least 1, page size not negative) returns no data and the row count 0.
\<close>

theorem no_result_error_only_for_missing_id:
  assumes "wf_table t"
  shows "(known_keys t item \<longrightarrow>
            (fst (update t now item) = Inl NoResultError \<longleftrightarrow> obj_get item ''id'' \<notin> set (ids t)))
       \<and> (fst (update t now item) = Inl NoResultError \<longrightarrow> snd (update t now item) = t)
       \<and> (fst (delete t v) = Inl NoResultError \<longleftrightarrow> v \<notin> set (ids t))
       \<and> (fst (delete t v) = Inl NoResultError \<longrightarrow> snd (delete t v) = t)
       \<and> (v \<notin> set (ids t) \<longrightarrow> get t v = Inr None)
       \<and> findAll t = Inr (rows t)
       \<and> (columns_known t F \<and> filtered t F = [] \<longrightarrow>
              findOneBy t (condition_of F) = Inr None \<and> findBy t (condition_of F) = Inr []
              \<and> count t (condition_of F) = Inr 0
              \<and> deleteBy t (condition_of F) = (Inr [], t)
              \<and> (1 \<le> p \<and> 0 \<le> n \<longrightarrow>
                   findAllPaginated t p n (condition_of F)
                     = Inr \<lparr>data = [], page = p, pageCount = ceil_div 0 n, pageSize = n,
                            rowCount = 0\<rparr>))"
proof -
  have u1: "known_keys t item \<longrightarrow>
            (fst (update t now item) = Inl NoResultError \<longleftrightarrow> obj_get item ''id'' \<notin> set (ids t))"
    using update_missing_id[OF assms, of item now] update_present_id[OF assms, of item now]
    by (cases "obj_get item ''id'' \<in> set (ids t)") simp_all
  have u2: "fst (update t now item) = Inl NoResultError \<longrightarrow> snd (update t now item) = t"
    using update_missing_id[OF assms, of item now] update_present_id[OF assms, of item now]
    by (cases "obj_get item ''id'' \<in> set (ids t)") (simp_all split: if_splits)
  have d1: "fst (delete t v) = Inl NoResultError \<longleftrightarrow> v \<notin> set (ids t)"
    using delete_missing_id[OF assms, of v] delete_present_id[OF assms, of v]
    by (cases "v \<in> set (ids t)") simp_all
  have d2: "fst (delete t v) = Inl NoResultError \<longrightarrow> snd (delete t v) = t"
    using delete_missing_id[OF assms, of v] delete_present_id[OF assms, of v]
    by (cases "v \<in> set (ids t)") simp_all
  have g: "v \<notin> set (ids t) \<longrightarrow> get t v = Inr None"
    using get_missing[OF wf_table_columns(1)[OF assms]] by simp
  from u1 u2 d1 d2 g show ?thesis
    using nothing_matches[where t = t and F = F] by (simp add: findAll_eq)
qed

text \<open>
  On the example table, where no row has the id \<open>z\<close> and none the name \<open>baz\<close>.
\<close>

theorem no_result_error_only_for_missing_id_witness:
  "wf_table example_table
   \<and> known_keys example_table [(''id'', Str ''z''), (''name'', Str ''q'')]
   \<and> update example_table 9 [(''id'', Str ''z''), (''name'', Str ''q'')]
       = (Inl NoResultError, example_table)
   \<and> delete example_table (Str ''z'') = (Inl NoResultError, example_table)
   \<and> Str ''z'' \<notin> set (ids example_table)
   \<and> get example_table (Str ''z'') = Inr None
   \<and> columns_known example_table (Exact [(''name'', Str ''baz'')])
   \<and> filtered example_table (Exact [(''name'', Str ''baz'')]) = []
   \<and> findBy example_table (Mapping [(''name'', Str ''baz'')]) = Inr []
   \<and> count example_table (Mapping [(''name'', Str ''baz'')]) = Inr 0
   \<and> columns_known example_table (Conditions [Where [''name''] (column_eq ''name'' (Str ''baz''))])
   \<and> filtered example_table (Conditions [Where [''name''] (column_eq ''name'' (Str ''baz''))]) = []
   \<and> findOneBy example_table
         (Callback (and_where [Where [''name''] (column_eq ''name'' (Str ''baz''))]))
       = Inr None
   \<and> count example_table
         (Callback (and_where [Where [''name''] (column_eq ''name'' (Str ''baz''))]))
       = Inr 0
   \<and> findAllPaginated example_table 1 10
         (Callback (and_where [Where [''name''] (column_eq ''name'' (Str ''baz''))]))
       = Inr \<lparr>data = [], page = 1, pageCount = Finite 0, pageSize = 10, rowCount = 0\<rparr>"
proof -
  have wf: "wf_table example_table"
    by (simp add: wf_table_def example_table_def wf_row_def constraints_ok_def not_null_def
        obj_get_def)
  have k: "known_keys example_table [(''id'', Str ''z''), (''name'', Str ''q'')]"
    by (simp add: known_keys_def defined_def example_table_def)
  have i: "Str ''z'' \<notin> set (ids example_table)"
    by (simp add: ids_def example_table_def obj_get_def)
  have o: "obj_get [(''id'', Str ''z''), (''name'', Str ''q'')] ''id'' = Str ''z''"
    by (simp add: obj_get_def)
  show ?thesis
    using no_result_error_only_for_missing_id
            [OF wf, where item = "[(''id'', Str ''z''), (''name'', Str ''q'')]" and now = 9
               and v = "Str ''z''" and F = "Exact [(''name'', Str ''baz'')]" and p = 1 and n = 10]
          no_result_error_only_for_missing_id
            [OF wf, where item = "[(''id'', Str ''z''), (''name'', Str ''q'')]" and now = 9
               and v = "Str ''z''"
               and F = "Conditions [Where [''name''] (column_eq ''name'' (Str ''baz''))]"
               and p = 1 and n = 10]
          wf k i o
    by (auto simp: prod_eq_iff example_filtered ceil_div_def)
qed

text \<open>
  C3 as stated fails in three ways. No row has the name \<open>baz\<close>, and for the callback
  that asks for this name and skips one row \<open>findBy\<close> returns the empty sequence, but
  \<open>count\<close> fails: the counting query returns no row, and the first row is destructured.
  \<open>findAllPaginated\<close>, which counts first, fails with it. And \<open>update\<close> on an id no
  row has, with a property that is not a column of the table, fails with the error of
  the database, not with the \<open>NoResultError\<close>.
\<close>

theorem count_offset_callback_counterexample:
  "findBy example_table (Callback (\<lambda>q. offset 1 (where_eq ''name'' (Str ''baz'') q))) = Inr []
   \<and> count example_table (Callback (\<lambda>q. offset 1 (where_eq ''name'' (Str ''baz'') q)))
       = Inl TypeError
   \<and> findAllPaginated example_table 1 10
         (Callback (\<lambda>q. offset 1 (where_eq ''name'' (Str ''baz'') q)))
       = Inl TypeError
   \<and> Str ''z'' \<notin> set (ids example_table)
   \<and> update example_table 9 [(''id'', Str ''z''), (''colour'', Str ''red'')]
       = (Inl SqlError, example_table)"
  by (simp add: findBy_def count_def findAllPaginated_def update_def exec_update_def
      update_values_def execute_def execute_count_def offset_def where_eq_def select_def
      known_columns_def known_keys_def defined_def limit_offset_def negative_def matching_def
      matches_def column_eq_def sql_eq_def ids_def obj_get_def takeFirstOrThrow_def
      example_table_def Let_def)

section \<open>update\<close>

lemma map_of_defined_update_values:
  "map_of (defined (update_values now item)) k
     = (if k = ''updatedAt'' then Some (Date now) else map_of (defined item) k)"
  by (simp add: update_values_def map_of_defined_update_same map_of_defined_update_other)

lemma map_of_defined_Some:
  "map_of al k = Some v \<Longrightarrow> v \<noteq> Undefined \<Longrightarrow> map_of (defined al) k = Some v"
  unfolding defined_def by (rule map_of_filter_in) simp_all

lemma map_of_assign:
  "map_of (assign vals r) k
     = map_option (\<lambda>x. case map_of (defined vals) k of None \<Rightarrow> x | Some v \<Rightarrow> v) (map_of r k)"
  by (induction r) (auto simp: assign_def split: option.splits)

lemma obj_get_assign:
  "obj_get (assign vals r) k
     = (case map_of (defined vals) k of
          None \<Rightarrow> obj_get r k
        | Some v \<Rightarrow> if map_of r k = None then Undefined else v)"
  by (auto simp: obj_get_def map_of_assign split: option.splits)

lemma map_fst_assign: "map fst (assign vals r) = map fst r"
  by (induction r) (auto simp: assign_def)

lemma wf_row_assign:
  assumes "wf_row cols r"
  shows "wf_row cols (assign vals r)"
proof -
  have "v \<noteq> Undefined" if "(k, v) \<in> set (assign vals r)" for k v
  proof -
    from that obtain x where x: "(k, x) \<in> set r"
      and v: "v = (case map_of (defined vals) k of None \<Rightarrow> x | Some w \<Rightarrow> w)"
      by (auto simp: assign_def)
    from x assms have "x \<noteq> Undefined" by (auto simp: wf_row_def list_all_iff)
    with v map_of_defined_not_Undefined[of vals k] show ?thesis
      by (auto split: option.splits)
  qed
  with assms show ?thesis
    by (auto simp: wf_row_def map_fst_assign list_all_iff)
qed

lemma wf_row_column:
  assumes "wf_row cols r" and "k \<in> set cols"
  shows "map_of r k \<noteq> None"
  using assms by (auto simp: wf_row_def map_of_eq_None_iff)

text \<open>
  C2, as amended. On a well-formed table, for every row and every call of \<open>update\<close>
  with an item that has the row's id, names only columns of the table and does not set
  \<open>createdAt\<close> to \<open>null\<close>: the call returns the row as updated, which takes the place
  of the row in the table (the other rows are as before) and is what \<open>get\<close> on the id
  then returns. The updated row has the same id; its \<open>updatedAt\<close> is the \<open>now\<close> of the
  call, whatever \<open>updatedAt\<close> the item carries, and so is later than the previous
  \<open>updatedAt\<close> whenever \<open>now\<close> is; its \<open>createdAt\<close> is as before when the item
  carries none; every other column has the item's value when the item has a defined
  value for it, and is as before otherwise.
\<close>

theorem update_overwrites_supplied_fields:
  assumes "wf_table t" and "r \<in> set (rows t)" and "obj_get item ''id'' = obj_get r ''id''"
    and "known_keys t item" and "map_of (defined item) ''createdAt'' \<noteq> Some Null"
  shows "\<exists>r' t'. update t now item = (Inr r', t')
           \<and> rows t' = map (\<lambda>x. if x = r then r' else x) (rows t)
           \<and> columns t' = columns t \<and> wf_table t'
           \<and> get t' (obj_get r ''id'') = Inr (Some r')
           \<and> map fst r' = map fst r
           \<and> obj_get r' ''id'' = obj_get r ''id''
           \<and> obj_get r' ''updatedAt'' = Date now
           \<and> (\<forall>u. obj_get r ''updatedAt'' = Date u \<and> u < now \<longrightarrow>
                (\<exists>u'. obj_get r' ''updatedAt'' = Date u' \<and> u < u'))
           \<and> (map_of (defined item) ''createdAt'' = None \<longrightarrow>
                obj_get r' ''createdAt'' = obj_get r ''createdAt'')
           \<and> (\<forall>k. k \<noteq> ''id'' \<and> k \<noteq> ''createdAt'' \<and> k \<noteq> ''updatedAt'' \<longrightarrow>
                obj_get r' k = (case map_of (defined item) k of None \<Rightarrow> obj_get r k | Some v \<Rightarrow> v))"
proof -
  let ?v = "obj_get r ''id''"
  let ?uv = "update_values now item"
  let ?r' = "assign ?uv r"
  let ?q = "where_eq ''id'' (obj_get item ''id'') select"
  let ?rows' = "map (\<lambda>x. if x = r then ?r' else x) (rows t)"
  let ?t' = "t\<lparr>rows := ?rows'\<rparr>"
  note cols = wf_table_columns[OF assms(1)]
  from assms(1,2) have wfr: "wf_row (columns t) r" and nnr: "not_null r"
    and dist: "distinct (map (\<lambda>r. obj_get r ''id'') (rows t))"
    and allwf: "\<forall>x\<in>set (rows t). wf_row (columns t) x"
    and allnn: "\<forall>x\<in>set (rows t). not_null x"
    by (auto simp: wf_table_def constraints_ok_def list_all_iff)
  have v: "?v \<noteq> Undefined" "?v \<noteq> Null"
    using wf_row_defined_id[OF wfr cols(1)] nnr by (auto simp: not_null_def)
  have inj: "inj_on (\<lambda>r. obj_get r ''id'') (set (rows t))"
    using dist by (simp add: distinct_map)
  have m: "matches ?q x \<longleftrightarrow> x = r" if "x \<in> set (rows t)" for x
    using that v inj assms(2,3) by (auto simp: matches_where_id inj_on_def)
  have rows': "map (\<lambda>x. if matches ?q x then ?r' else x) (rows t) = ?rows'"
    using m by (intro map_cong) auto
  have rows'': "map (\<lambda>x. if matches ?q x then assign ?uv x else x) (rows t) = ?rows'"
    using m by (intro map_cong) auto
  have sel: "filter (matches ?q) (rows t) = [r]"
    using matching_id_unique[OF assms(1,2)] assms(3) by (simp add: matches_where_id)
  \<comment> \<open>the columns of the updated row\<close>
  have defk: "map_of r k \<noteq> None" if "k \<in> set (columns t)" for k
    using wf_row_column[OF wfr that] .
  have item_cols: "k \<in> set (columns t)" if "map_of (defined item) k = Some w" for k w
  proof -
    from that have "(k, w) \<in> set (defined item)" by (rule map_of_SomeD)
    then have "(k, w) \<in> set item \<and> w \<noteq> Undefined" by (auto simp: defined_def)
    with assms(4) show ?thesis unfolding known_keys_iff by blast
  qed
  have get': "obj_get ?r' k
                = (if k = ''updatedAt'' then Date now
                   else case map_of (defined item) k of None \<Rightarrow> obj_get r k | Some w \<Rightarrow> w)" for k
    using defk[of k] cols(3) item_cols[of k]
    by (auto simp: obj_get_assign map_of_defined_update_values split: option.splits)
  have "map_of item ''id'' = Some ?v"
    using assms(3) v(1) by (simp add: obj_get_eq_iff)
  then have "map_of (defined item) ''id'' = Some ?v"
    using v(1) by (rule map_of_defined_Some)
  then have id': "obj_get ?r' ''id'' = ?v" by (simp add: get')
  have up': "obj_get ?r' ''updatedAt'' = Date now" by (simp add: get')
  have cr': "obj_get ?r' ''createdAt'' \<noteq> Null"
    using assms(5) nnr by (auto simp: get' not_null_def split: option.splits)
  have nn': "not_null ?r'" using id' up' cr' v(2) by (simp add: not_null_def)
  have ids': "map (\<lambda>r. obj_get r ''id'') ?rows' = map (\<lambda>r. obj_get r ''id'') (rows t)"
    using id' by (auto intro: map_cong simp: comp_def)
  have cons': "constraints_ok ?rows'"
    using dist allnn nn' by (auto simp: constraints_ok_def ids' list_all_iff simp del: map_map)
  have wf': "wf_table ?t'"
    using assms(1) cons' allwf wf_row_assign[OF wfr]
    by (auto simp: wf_table_def list_all_iff)
  have kk: "known_keys t ?uv"
    using assms(4) by (simp add: known_keys_update_values[OF cols(3)])
  have kc: "known_columns t ?q" using cols(1) by (simp add: known_columns_where_id)
  have res: "update t now item = (Inr ?r', ?t')"
    using kk kc cons' sel
    by (simp add: update_def exec_update_eq rows'' takeFirstOrThrow_def)
  have "?r' \<in> set (rows ?t')" using assms(2) by auto
  from get_row[OF wf' this] have g: "get ?t' ?v = Inr (Some ?r')" by (simp add: id')
  show ?thesis
    unfolding res using wf' g id' up' get' by (simp add: map_fst_assign)
qed

theorem update_overwrites_supplied_fields_witness:
  "wf_table example_table
   \<and> [(''id'', Str ''b''), (''createdAt'', Date 2), (''updatedAt'', Date 3), (''name'', Str ''bar'')]
       \<in> set (rows example_table)
   \<and> known_keys example_table [(''id'', Str ''b''), (''name'', Str ''baz''), (''updatedAt'', Date 0)]
   \<and> update example_table 9 [(''id'', Str ''b''), (''name'', Str ''baz''), (''updatedAt'', Date 0)]
       = (Inr [(''id'', Str ''b''), (''createdAt'', Date 2), (''updatedAt'', Date 9),
               (''name'', Str ''baz'')],
          example_table\<lparr>rows :=
            [[(''id'', Str ''a''), (''createdAt'', Date 1), (''updatedAt'', Date 1),
              (''name'', Str ''foo'')],
             [(''id'', Str ''b''), (''createdAt'', Date 2), (''updatedAt'', Date 9),
              (''name'', Str ''baz'')],
             [(''id'', Str ''c''), (''createdAt'', Date 4), (''updatedAt'', Date 4),
              (''name'', Str ''foo'')]]\<rparr>)"
proof -
  let ?item = "[(''id'', Str ''b''), (''name'', Str ''baz''), (''updatedAt'', Date 0)]"
  let ?r = "[(''id'', Str ''b''), (''createdAt'', Date 2), (''updatedAt'', Date 3),
             (''name'', Str ''bar'')]"
  have wf: "wf_table example_table"
    by (simp add: wf_table_def example_table_def wf_row_def constraints_ok_def not_null_def
        obj_get_def)
  have r: "?r \<in> set (rows example_table)" by (simp add: example_table_def)
  have i: "obj_get ?item ''id'' = obj_get ?r ''id''" by (simp add: obj_get_def)
  have k: "known_keys example_table ?item"
    by (simp add: known_keys_def defined_def example_table_def)
  have c: "map_of (defined ?item) ''createdAt'' \<noteq> Some Null" by (simp add: defined_def)
  have u: "update example_table 9 ?item
       = (Inr [(''id'', Str ''b''), (''createdAt'', Date 2), (''updatedAt'', Date 9),
               (''name'', Str ''baz'')],
          example_table\<lparr>rows :=
            [[(''id'', Str ''a''), (''createdAt'', Date 1), (''updatedAt'', Date 1),
              (''name'', Str ''foo'')],
             [(''id'', Str ''b''), (''createdAt'', Date 2), (''updatedAt'', Date 9),
              (''name'', Str ''baz'')],
             [(''id'', Str ''c''), (''createdAt'', Date 4), (''updatedAt'', Date 4),
              (''name'', Str ''foo'')]]\<rparr>)"
    by (simp add: update_def exec_update_def update_values_def assign_def defined_def
        known_keys_def known_columns_def constraints_ok_def not_null_def obj_get_def
        matching_def matches_def where_eq_def select_def sql_eq_def column_eq_def takeFirstOrThrow_def
        example_table_def Let_def)
  from update_overwrites_supplied_fields[OF wf r i k c, of 9]
  show ?thesis using wf r k u by simp
qed

text \<open>
  C2 as stated fails for an item with a \<open>createdAt\<close> property, which the spread
  \<open>{ ...item, updatedAt: new Date() }\<close> passes on to the statement, and for an update
  in the millisecond of the previous one: row \<open>a\<close>, created and last updated at time 1,
  updated at time 1 with \<open>createdAt: 0\<close>, has \<open>createdAt\<close> 0 and \<open>updatedAt\<close> 1.
\<close>

theorem update_createdAt_counterexample:
  "update example_table 1 [(''id'', Str ''a''), (''createdAt'', Date 0)]
     = (Inr [(''id'', Str ''a''), (''createdAt'', Date 0), (''updatedAt'', Date 1),
             (''name'', Str ''foo'')],
        example_table\<lparr>rows :=
          [[(''id'', Str ''a''), (''createdAt'', Date 0), (''updatedAt'', Date 1),
            (''name'', Str ''foo'')],
           [(''id'', Str ''b''), (''createdAt'', Date 2), (''updatedAt'', Date 3),
            (''name'', Str ''bar'')],
           [(''id'', Str ''c''), (''createdAt'', Date 4), (''updatedAt'', Date 4),
            (''name'', Str ''foo'')]]\<rparr>)
   \<and> get example_table (Str ''a'')
       = Inr (Some [(''id'', Str ''a''), (''createdAt'', Date 1), (''updatedAt'', Date 1),
                    (''name'', Str ''foo'')])"
  by (simp add: update_def exec_update_def update_values_def assign_def defined_def
      known_keys_def known_columns_def constraints_ok_def not_null_def obj_get_def
      matching_def matches_def where_eq_def select_def sql_eq_def column_eq_def takeFirstOrThrow_def
      get_def executeTakeFirst_def execute_def limit_offset_def negative_def
      example_table_def Let_def)

section \<open>The methods keep tables well-formed\<close>

text \<open>
  A table without rows that has the three leading columns is well-formed, and every
  method keeps a table well-formed, whether it returns or fails: well-formedness is an
  invariant of the tables the repository works on.
\<close>

lemma wf_table_empty:
  "distinct ([''id'', ''createdAt'', ''updatedAt''] @ cols)
   \<Longrightarrow> wf_table \<lparr>columns = [''id'', ''createdAt'', ''updatedAt''] @ cols, rows = []\<rparr>"
  by (simp add: wf_table_def constraints_ok_def)

lemma wf_table_filter: "wf_table t \<Longrightarrow> wf_table (t\<lparr>rows := filter P (rows t)\<rparr>)"
  by (auto simp: wf_table_def constraints_ok_def list_all_iff distinct_map_filter)

lemma wf_table_deleteBy: "wf_table t \<Longrightarrow> wf_table (snd (deleteBy t c))"
  by (simp add: deleteBy_def exec_delete_eq wf_table_filter)

lemma wf_table_delete: "wf_table t \<Longrightarrow> wf_table (snd (delete t v))"
  by (simp add: delete_def exec_delete_eq wf_table_filter split: prod.splits)

lemma wf_table_truncate: "wf_table t \<Longrightarrow> wf_table (snd (truncate_repo t))"
  by (simp add: truncate_repo_def exec_delete_eq wf_table_filter split: prod.splits sum.splits)

lemma wf_table_exec_insert: "wf_table t \<Longrightarrow> wf_table (snd (exec_insert t vals))"
  by (simp add: exec_insert_eq wf_table_insert)

lemma wf_table_insert_repo: "wf_table t \<Longrightarrow> wf_table (snd (insert_repo t uuid now item))"
  using wf_table_exec_insert[of t "[insert_values uuid now item]"]
  by (cases "exec_insert t [insert_values uuid now item]")
     (auto simp: insert_repo_def split: sum.splits)

lemma wf_table_insertAll: "wf_table t \<Longrightarrow> wf_table (snd (insertAll t uuid now items))"
  by (simp only: insertAll_eq wf_table_exec_insert)

lemma wf_table_exec_update:
  assumes "wf_table t"
  shows "wf_table (snd (exec_update t q vals))"
proof -
  let ?rows' = "map (\<lambda>r. if matches q r then assign vals r else r) (rows t)"
  have "wf_table (t\<lparr>rows := ?rows'\<rparr>)" if "constraints_ok ?rows'"
    using assms that wf_row_assign by (auto simp: wf_table_def list_all_iff)
  with assms show ?thesis by (simp add: exec_update_eq)
qed

lemma wf_table_update: "wf_table t \<Longrightarrow> wf_table (snd (update t now item))"
  using wf_table_exec_update[of t "where_eq ''id'' (obj_get item ''id'') select"
          "update_values now item"]
  by (cases "exec_update t (where_eq ''id'' (obj_get item ''id'') select)
               (update_values now item)")
     (simp add: update_def)

end
